theory Spec2Isabelle
  imports Complex_Main "HOL-Library.Word"
begin

unbundle bit_operations_syntax

section \<open>Data model\<close>

text \<open>
  Both source files, \<^verbatim>\<open>src/pg_retry.c\<close> and \<^verbatim>\<open>src/src/pg_retry.c\<close>, define the same
  SQL-callable function \<^verbatim>\<open>pg_retry_retry\<close>. The first keeps the error of a failed attempt
  in \<^verbatim>\<open>last_error\<close> and rethrows it after the loop; the second rethrows inside the
  \<^verbatim>\<open>PG_CATCH\<close> handler. Definitions that are shared word for word by the two files are
  given once; the two loops and the two entry points are suffixed \<open>_A\<close> (for
  \<^verbatim>\<open>src/pg_retry.c\<close>) and \<open>_B\<close> (for \<^verbatim>\<open>src/src/pg_retry.c\<close>).

  A C string is the list of its bytes before the terminating NUL. The C \<^verbatim>\<open>int\<close>s
  (\<^verbatim>\<open>attempt\<close>, \<^verbatim>\<open>max_tries\<close>, the delays, \<^verbatim>\<open>sqlerrcode\<close>) are integers; the only
  arithmetic on them is \<^verbatim>\<open>attempt++\<close>, whose overflow at \<open>INT_MAX\<close> is a branch of the
  model. The delay is computed in \<^verbatim>\<open>double\<close>s, which are modelled by the rational
  numbers they denote, every operation rounding as IEEE 754 prescribes.
  \<^verbatim>\<open>SPI_processed\<close> is a \<^verbatim>\<open>uint64\<close> and \<^verbatim>\<open>processed_rows\<close> an \<^verbatim>\<open>int\<close>: they are
  words, and the assignment truncates. Memory management (\<^verbatim>\<open>pfree\<close>, \<^verbatim>\<open>FreeErrorData\<close>, the
  memory context and resource owner that \<^verbatim>\<open>src/src/pg_retry.c\<close> restores) and \<^verbatim>\<open>SPI_finish\<close>
  change nothing of what is observed here and are left out.
\<close>

definition INT_MAX :: int where
  "INT_MAX = 2147483647"

text \<open>\<^verbatim>\<open>ErrorData\<close>: the two fields the function reads; \<^verbatim>\<open>message\<close> may be \<^verbatim>\<open>NULL\<close>.\<close>

record ErrorData =
  sqlerrcode :: int
  message :: "string option"

text \<open>
  A parsed statement is seen only through the node tag of \<^verbatim>\<open>raw_stmt->stmt\<close>, which
  \<^verbatim>\<open>IsA(raw_stmt->stmt, TransactionStmt)\<close> tests.
\<close>

datatype NodeTag = T_TransactionStmt | T_SelectStmt | T_InsertStmt | T_UpdateStmt
  | T_DeleteStmt | T_OtherStmt nat

record RawStmt =
  stmt :: NodeTag

text \<open>
  What \<^verbatim>\<open>BeginInternalSubTransaction\<close> and \<^verbatim>\<open>SPI_execute\<close> do in one attempt: either an
  \<^verbatim>\<open>ERROR\<close> is raised while the subtransaction is opened or the statement runs, or
  \<^verbatim>\<open>SPI_execute\<close> returns its result code, with \<^verbatim>\<open>SPI_processed\<close> set.
\<close>

datatype attempt_outcome =
    Raised ErrorData
  | Executed int "64 word"

text \<open>
  A C \<^verbatim>\<open>double\<close>: a finite value, which is a rational number, an infinity or a NaN. The
  two zeros are not told apart; nothing in \<^verbatim>\<open>calculate_delay\<close> depends on the sign of a
  zero.
\<close>

datatype double = Finite rat | PInf | NInf | NaN

text \<open>
  The host engine, as far as one invocation consults it. \<open>SPI_execute\<close>,
  \<open>ReleaseCurrentSubTransaction\<close> and \<open>CHECK_FOR_INTERRUPTS\<close> are indexed by the attempt
  during which they are called. \<open>ReleaseCurrentSubTransaction h n = Some e\<close> says that the
  release of attempt \<open>n\<close>, which the source calls after it has set \<^verbatim>\<open>success = true\<close>, raises
  \<open>e\<close>. \<open>CHECK_FOR_INTERRUPTS h n = Some e\<close> says that a cancellation is pending after the
  sleep that follows attempt \<open>n\<close>, and that the macro raises \<open>e\<close>. \<open>uniform h n\<close> is the
  random draw of the \<^verbatim>\<open>calculate_delay\<close> call that follows attempt \<open>n\<close>: the value of
  \<^verbatim>\<open>(double)rand() / RAND_MAX\<close> in \<^verbatim>\<open>src/pg_retry.c\<close> and of
  \<^verbatim>\<open>pg_prng_double(&pg_global_prng_state)\<close> in \<^verbatim>\<open>src/src/pg_retry.c\<close>, which lie between 0
  and 1. \<open>text_to_array\<close> is the host's split of the default list at commas,
  used by \<^verbatim>\<open>src/pg_retry.c\<close> only.
\<close>

record host =
  pg_parse_query :: "string \<Rightarrow> ErrorData + RawStmt list"
  SPI_connect_ext :: int
  SPI_execute :: "int \<Rightarrow> attempt_outcome"
  ReleaseCurrentSubTransaction :: "int \<Rightarrow> ErrorData option"
  uniform :: "int \<Rightarrow> double"
  CHECK_FOR_INTERRUPTS :: "int \<Rightarrow> ErrorData option"
  text_to_array :: "string \<Rightarrow> string option list"

text \<open>The GUC variables (the file-level statics).\<close>

record guc =
  pg_retry_default_max_tries :: int
  pg_retry_default_base_delay_ms :: int
  pg_retry_default_max_delay_ms :: int
  pg_retry_default_sqlstates_str :: string

text \<open>The five arguments of the call; \<open>None\<close> is SQL \<^verbatim>\<open>NULL\<close> (\<^verbatim>\<open>PG_ARGISNULL\<close>).\<close>

record fcinfo =
  arg0 :: "string option"
  arg1 :: "int option"
  arg2 :: "int option"
  arg3 :: "int option"
  arg4 :: "string option list option"

text \<open>
  What the caller and the host observe of one invocation: the calls made, in order, and
  how the function is left. \<open>SubXact n\<close> is attempt \<open>n\<close>
  (\<^verbatim>\<open>BeginInternalSubTransaction\<close> followed by \<^verbatim>\<open>SPI_execute\<close>), \<open>Warning n c m\<close> the
  \<^verbatim>\<open>ereport(WARNING, ...)\<close> of attempt \<open>n\<close> with error code \<open>c\<close> and text \<open>m\<close>, and
  \<open>Sleep n us\<close> the call \<^verbatim>\<open>calculate_delay(n, ...)\<close> followed by \<^verbatim>\<open>pg_usleep(us)\<close>.
\<close>

datatype event =
    SubXact int
  | Warning int int string
  | Sleep int int

text \<open>
  The ways out of the function: the row count, \<^verbatim>\<open>ReThrowError\<close> of a caught error, an
  \<^verbatim>\<open>ereport(ERROR, ...)\<close> of the function's own, an error raised by the host outside
  \<^verbatim>\<open>PG_TRY\<close> (the parser, or \<^verbatim>\<open>CHECK_FOR_INTERRUPTS\<close> in the handler), and the signed
  overflow of \<^verbatim>\<open>attempt++\<close>.
\<close>

datatype outcome =
    PG_RETURN_INT32 "32 word"
  | ReThrowError ErrorData
  | ereport_ERROR ErrorData
  | host_ERROR ErrorData
  | Overflow

type_synonym run = "outcome \<times> event list"

definition emit :: "event list \<Rightarrow> run \<Rightarrow> run" where
  "emit es r = (fst r, es @ snd r)"

section \<open>Host macros and library functions\<close>

text \<open>
  \<^verbatim>\<open>PGSIXBIT\<close>, \<^verbatim>\<open>PGUNSIXBIT\<close>, \<^verbatim>\<open>MAKE_SQLSTATE\<close> (utils/elog.h) and \<^verbatim>\<open>unpack_sql_state\<close>
  (elog.c) of the host: an error code is five characters packed six bits each.
\<close>

definition PGSIXBIT :: "char \<Rightarrow> int" where
  "PGSIXBIT ch = (of_char ch - 48) AND 63"

definition PGUNSIXBIT :: "int \<Rightarrow> char" where
  "PGUNSIXBIT val = char_of ((val AND 63) + 48)"

definition MAKE_SQLSTATE :: "char \<Rightarrow> char \<Rightarrow> char \<Rightarrow> char \<Rightarrow> char \<Rightarrow> int" where
  "MAKE_SQLSTATE ch1 ch2 ch3 ch4 ch5 =
     PGSIXBIT ch1 + push_bit 6 (PGSIXBIT ch2) + push_bit 12 (PGSIXBIT ch3)
       + push_bit 18 (PGSIXBIT ch4) + push_bit 24 (PGSIXBIT ch5)"

definition unpack_sql_state :: "int \<Rightarrow> string" where
  "unpack_sql_state sql_state =
     [PGUNSIXBIT sql_state, PGUNSIXBIT (drop_bit 6 sql_state),
      PGUNSIXBIT (drop_bit 12 sql_state), PGUNSIXBIT (drop_bit 18 sql_state),
      PGUNSIXBIT (drop_bit 24 sql_state)]"

definition ERRCODE_NULL_VALUE_NOT_ALLOWED :: int where
  "ERRCODE_NULL_VALUE_NOT_ALLOWED = MAKE_SQLSTATE CHR ''2'' CHR ''2'' CHR ''0'' CHR ''0'' CHR ''4''"

definition ERRCODE_INVALID_PARAMETER_VALUE :: int where
  "ERRCODE_INVALID_PARAMETER_VALUE = MAKE_SQLSTATE CHR ''2'' CHR ''2'' CHR ''0'' CHR ''2'' CHR ''3''"

definition ERRCODE_SYNTAX_ERROR :: int where
  "ERRCODE_SYNTAX_ERROR = MAKE_SQLSTATE CHR ''4'' CHR ''2'' CHR ''6'' CHR ''0'' CHR ''1''"

definition ERRCODE_FEATURE_NOT_SUPPORTED :: int where
  "ERRCODE_FEATURE_NOT_SUPPORTED = MAKE_SQLSTATE CHR ''0'' CHR ''A'' CHR ''0'' CHR ''0'' CHR ''0''"

definition ERRCODE_CONNECTION_FAILURE :: int where
  "ERRCODE_CONNECTION_FAILURE = MAKE_SQLSTATE CHR ''0'' CHR ''8'' CHR ''0'' CHR ''0'' CHR ''6''"

definition ERRCODE_INTERNAL_ERROR :: int where
  "ERRCODE_INTERNAL_ERROR = MAKE_SQLSTATE CHR ''X'' CHR ''X'' CHR ''0'' CHR ''0'' CHR ''0''"

definition SPI_OK_CONNECT :: int where
  "SPI_OK_CONNECT = 1"

text \<open>
  \<^verbatim>\<open>strcmp\<close>: the sign of the first difference, bytes compared as \<^verbatim>\<open>unsigned char\<close>; the
  end of the list is the terminating NUL.
\<close>

fun strcmp :: "string \<Rightarrow> string \<Rightarrow> int" where
  "strcmp [] [] = 0"
| "strcmp [] (b # bs) = -1"
| "strcmp (a # as) [] = 1"
| "strcmp (a # as) (b # bs) =
     (if a = b then strcmp as bs
      else if (of_char a :: nat) < of_char b then -1 else 1)"

text \<open>The conversion \<^verbatim>\<open>%d\<close> of the message formats.\<close>

function show_nat :: "nat \<Rightarrow> string" where
  "show_nat n =
     (if n < 10 then [char_of (48 + n)]
      else show_nat (n div 10) @ [char_of (48 + n mod 10)])"
  by pat_completeness auto
termination
  by (relation "measure (\<lambda>n. n)") auto

definition show_int :: "int \<Rightarrow> string" where
  "show_int i = (if i < 0 then CHR ''-'' # show_nat (nat (- i)) else show_nat (nat i))"

section \<open>The \<^verbatim>\<open>double\<close> arithmetic of \<^verbatim>\<open>calculate_delay\<close>\<close>

text \<open>
  An operation on doubles returns the exact result rounded to the nearest double, ties to
  even: IEEE 754 binary64 in its default rounding mode, each operation rounded on its own
  (\<^verbatim>\<open>FLT_EVAL_METHOD\<close> 0). For \<open>0 < x\<close>, \<open>ilog2 x\<close> is the exponent
  \<open>e\<close> with \<open>2 powi e \<le> x < 2 powi (e + 1)\<close>. It is computed on the numerator \<open>p\<close> and the
  denominator \<open>q\<close> of \<open>x\<close>: \<open>log2_up\<close> counts the doublings of \<open>q\<close> that \<open>p\<close> admits,
  \<open>log2_down\<close> the doublings of \<open>p\<close> that bring it up to \<open>q\<close>.
\<close>

function log2_up :: "int \<Rightarrow> int \<Rightarrow> int" where
  "log2_up p q = (if q \<le> 0 \<or> p < 2 * q then 0 else 1 + log2_up p (2 * q))"
  by pat_completeness auto
termination
  by (relation "measure (\<lambda>(p, q). nat (p - q))") auto

function log2_down :: "int \<Rightarrow> int \<Rightarrow> int" where
  "log2_down p q = (if p \<le> 0 \<or> q \<le> p then 0 else log2_down (2 * p) q - 1)"
  by pat_completeness auto
termination
  by (relation "measure (\<lambda>(p, q). nat (q - p))") auto

definition ilog2 :: "rat \<Rightarrow> int" where
  "ilog2 x = (case quotient_of x of (p, q) \<Rightarrow> if q \<le> p then log2_up p q else log2_down p q)"

text \<open>
  \<open>quantum x\<close> is the spacing of the doubles around \<open>x\<close>: 52 binary places below the
  exponent of \<open>x\<close>, and \<open>2 powi (- 1074)\<close> in the subnormal range. \<open>nearest x\<close> is the multiple
  of the quantum nearest to \<open>x\<close>, the even multiple of two that are equally near; it is
  written as a fraction of integers, the quantum being a power of two or the inverse of
  one. \<open>rnd x\<close> is the double that \<open>nearest x\<close> stands for: an infinity once its exponent
  exceeds 1023.
\<close>

definition round_half_even :: "rat \<Rightarrow> int" where
  "round_half_even y =
     (let f = \<lfloor>y\<rfloor>; r = y - of_int f
      in if r < 1 / 2 then f else if 1 / 2 < r then f + 1 else if even f then f else f + 1)"

definition quantum_exponent :: "rat \<Rightarrow> int" where
  "quantum_exponent x = max (ilog2 \<bar>x\<bar>) (- 1022) - 52"

definition quantum :: "rat \<Rightarrow> rat" where
  "quantum x = 2 powi quantum_exponent x"

definition nearest :: "rat \<Rightarrow> rat" where
  "nearest x =
     (let e = quantum_exponent x
      in if 0 \<le> e then of_int (round_half_even (x / of_int (2 ^ nat e)) * 2 ^ nat e)
         else Fract (round_half_even (x * of_int (2 ^ nat (- e)))) (2 ^ nat (- e)))"

definition rnd :: "rat \<Rightarrow> double" where
  "rnd x =
     (if x = 0 then Finite 0
      else
        (let y = nearest x
         in if 1024 \<le> ilog2 \<bar>y\<bar> then (if 0 < x then PInf else NInf) else Finite y))"

text \<open>
  The operators \<^verbatim>\<open>*\<close>, \<^verbatim>\<open>+\<close>, unary and binary \<^verbatim>\<open>-\<close> and \<^verbatim>\<open><\<close> on doubles. A product of 0 and
  an infinity and a sum of opposite infinities are NaN; a comparison with a NaN is false.
\<close>

fun dmul :: "double \<Rightarrow> double \<Rightarrow> double" where
  "dmul NaN y = NaN"
| "dmul x NaN = NaN"
| "dmul (Finite a) (Finite b) = rnd (a * b)"
| "dmul (Finite a) PInf = (if a = 0 then NaN else if 0 < a then PInf else NInf)"
| "dmul (Finite a) NInf = (if a = 0 then NaN else if 0 < a then NInf else PInf)"
| "dmul PInf (Finite b) = (if b = 0 then NaN else if 0 < b then PInf else NInf)"
| "dmul NInf (Finite b) = (if b = 0 then NaN else if 0 < b then NInf else PInf)"
| "dmul PInf PInf = PInf"
| "dmul PInf NInf = NInf"
| "dmul NInf PInf = NInf"
| "dmul NInf NInf = PInf"

fun dadd :: "double \<Rightarrow> double \<Rightarrow> double" where
  "dadd NaN y = NaN"
| "dadd x NaN = NaN"
| "dadd (Finite a) (Finite b) = rnd (a + b)"
| "dadd (Finite a) PInf = PInf"
| "dadd (Finite a) NInf = NInf"
| "dadd PInf (Finite b) = PInf"
| "dadd NInf (Finite b) = NInf"
| "dadd PInf PInf = PInf"
| "dadd PInf NInf = NaN"
| "dadd NInf PInf = NaN"
| "dadd NInf NInf = NInf"

fun dneg :: "double \<Rightarrow> double" where
  "dneg NaN = NaN"
| "dneg (Finite a) = Finite (- a)"
| "dneg PInf = NInf"
| "dneg NInf = PInf"

definition dsub :: "double \<Rightarrow> double \<Rightarrow> double" where
  "dsub x y = dadd x (dneg y)"

fun dless :: "double \<Rightarrow> double \<Rightarrow> bool" where
  "dless NaN y = False"
| "dless x NaN = False"
| "dless (Finite a) (Finite b) = (a < b)"
| "dless (Finite a) PInf = True"
| "dless (Finite a) NInf = False"
| "dless PInf y = False"
| "dless NInf (Finite b) = True"
| "dless NInf PInf = True"
| "dless NInf NInf = False"

text \<open>
  The macro \<^verbatim>\<open>Min(x, y)\<close> of c.h, \<^verbatim>\<open>((x) < (y) ? (x) : (y))\<close>, at type \<^verbatim>\<open>double\<close>; the
  conversion of an \<^verbatim>\<open>int\<close> to \<^verbatim>\<open>double\<close>; and \<^verbatim>\<open>pow(2.0, k)\<close> for an \<^verbatim>\<open>int\<close> \<open>k\<close>, the power
  of two \<open>2 powi k\<close> rounded, which is that power as long as it is a double.
\<close>

definition Min_double :: "double \<Rightarrow> double \<Rightarrow> double" where
  "Min_double x y = (if dless x y then x else y)"

definition double_of_int :: "int \<Rightarrow> double" where
  "double_of_int i = rnd (of_int i)"

definition pow_2 :: "int \<Rightarrow> double" where
  "pow_2 k = rnd (if 0 \<le> k then of_int (2 ^ nat k) else Fract 1 (2 ^ nat (- k)))"

text \<open>
  The cast \<^verbatim>\<open>(long)delay\<close> drops the fraction. For a NaN, an infinity or a value outside
  the range of \<^verbatim>\<open>long\<close> the C standard leaves the cast undefined; the value given here is
  the one the x86-64 conversion instruction produces.
\<close>

definition LONG_MIN :: int where
  "LONG_MIN = - (2 ^ 63)"

definition LONG_MAX :: int where
  "LONG_MAX = 2 ^ 63 - 1"

fun long_of_double :: "double \<Rightarrow> int" where
  "long_of_double (Finite y) =
     (let t = (if 0 \<le> y then \<lfloor>y\<rfloor> else \<lceil>y\<rceil>)
      in if LONG_MIN \<le> t \<and> t \<le> LONG_MAX then t else LONG_MIN)"
| "long_of_double PInf = LONG_MIN"
| "long_of_double NInf = LONG_MIN"
| "long_of_double NaN = LONG_MIN"

section \<open>Helper functions of both files\<close>

text \<open>
  \<^verbatim>\<open>is_retryable_sqlstate\<close>: the array is deconstructed into its elements and their null
  flags (\<open>None\<close> is a null element); the loop returns at the first non-null element that
  \<^verbatim>\<open>strcmp\<close> finds equal.
\<close>

fun is_retryable_sqlstate :: "string \<Rightarrow> string option list \<Rightarrow> bool" where
  "is_retryable_sqlstate sqlstate [] = False"
| "is_retryable_sqlstate sqlstate (None # elements) = is_retryable_sqlstate sqlstate elements"
| "is_retryable_sqlstate sqlstate (Some elem_str # elements) =
     (if strcmp sqlstate elem_str = 0 then True
      else is_retryable_sqlstate sqlstate elements)"

definition contains_transaction_control :: "RawStmt list \<Rightarrow> bool" where
  "contains_transaction_control parsetree_list =
     (if parsetree_list = [] \<or> length parsetree_list \<noteq> 1 then False
      else if stmt (hd parsetree_list) = T_TransactionStmt then True
      else False)"

text \<open>
  \<^verbatim>\<open>is_single_statement\<close> returns its boolean together with the tree it stores through
  \<^verbatim>\<open>parsed_tree\<close>; an error raised by the parser leaves the function.
\<close>

definition is_single_statement :: "host \<Rightarrow> string \<Rightarrow> ErrorData + (bool \<times> RawStmt list)" where
  "is_single_statement h sql =
     (case pg_parse_query h sql of
        Inl e \<Rightarrow> Inl e
      | Inr raw_parsetree_list \<Rightarrow> Inr (length raw_parsetree_list = 1, raw_parsetree_list))"

definition validate_sql :: "host \<Rightarrow> string \<Rightarrow> outcome + RawStmt list" where
  "validate_sql h sql =
     (case is_single_statement h sql of
        Inl e \<Rightarrow> Inl (host_ERROR e)
      | Inr (single, parsed_tree) \<Rightarrow>
          if \<not> single then
            Inl (ereport_ERROR \<lparr>sqlerrcode = ERRCODE_SYNTAX_ERROR,
                   message = Some ''pg_retry: SQL must contain exactly one statement''\<rparr>)
          else if contains_transaction_control parsed_tree then
            Inl (ereport_ERROR \<lparr>sqlerrcode = ERRCODE_FEATURE_NOT_SUPPORTED,
                   message = Some ''pg_retry: transaction control statements are not allowed''\<rparr>)
          else Inr parsed_tree)"

text \<open>
  \<^verbatim>\<open>calculate_delay\<close>, statement by statement. \<^verbatim>\<open>0.4\<close> and \<^verbatim>\<open>0.2\<close> are the doubles nearest
  to 2/5 and 1/5, and the random factor is the draw \<open>uniform h attempt\<close> of the host. The
  last line is \<^verbatim>\<open>Max(1L, (long)delay)\<close>.
\<close>

definition calculate_delay :: "host \<Rightarrow> int \<Rightarrow> int \<Rightarrow> int \<Rightarrow> int" where
  "calculate_delay h attempt base_delay_ms max_delay_ms =
     (let delay = dmul (double_of_int base_delay_ms) (pow_2 (attempt - 1));
          delay = Min_double delay (double_of_int max_delay_ms);
          jitter = dsub (dmul (dmul (uniform h attempt) delay) (rnd (2 / 5)))
                        (dmul delay (rnd (1 / 5)));
          delay = dadd delay jitter
      in max 1 (long_of_double delay))"

text \<open>
  \<^verbatim>\<open>build_sqlstate_array\<close> (\<^verbatim>\<open>src/src/pg_retry.c\<close>). \<open>sqlstate_tokens\<close> is its \<^verbatim>\<open>while (*ptr)\<close>
  loop, the argument being the text from \<^verbatim>\<open>ptr\<close> on, and \<open>skip_comma\<close> the loop's last
  statement; \<^verbatim>\<open>isspace\<close> is that of the C locale.
\<close>

definition isspace :: "char \<Rightarrow> bool" where
  "isspace c = (c = CHR '' '' \<or> c = CHR 0x09 \<or> c = CHR 0x0A \<or> c = CHR 0x0B
                 \<or> c = CHR 0x0C \<or> c = CHR 0x0D)"

definition skip_comma :: "string \<Rightarrow> string" where
  "skip_comma ptr = (if ptr \<noteq> [] \<and> hd ptr = CHR '','' then tl ptr else ptr)"

function sqlstate_tokens :: "string \<Rightarrow> string list" where
  "sqlstate_tokens ptr =
     (if ptr = [] then []
      else
        (let from_start = dropWhile isspace ptr;
             upto_end = takeWhile (\<lambda>c. c \<noteq> CHR '','') from_start;
             from_end = dropWhile (\<lambda>c. c \<noteq> CHR '','') from_start;
             token = rev (dropWhile isspace (rev upto_end))
         in (if token \<noteq> [] then [token] else []) @ sqlstate_tokens (skip_comma from_end)))"
  by pat_completeness auto
termination
proof (relation "measure length")
  show "wf (measure length)" by simp
next
  fix ptr from_start from_end :: string
  assume ne: "ptr \<noteq> []"
    and s: "from_start = dropWhile isspace ptr"
    and e: "from_end = dropWhile (\<lambda>c. c \<noteq> CHR '','') from_start"
  have "length from_end \<le> length from_start"
    unfolding e by (rule length_dropWhile_le)
  also have "\<dots> \<le> length ptr"
    unfolding s by (rule length_dropWhile_le)
  finally have le: "length from_end \<le> length ptr" .
  have hd: "from_end \<noteq> [] \<Longrightarrow> hd from_end = CHR '',''"
    unfolding e using hd_dropWhile [of "\<lambda>c. c \<noteq> CHR '',''" from_start] by blast
  have "length (skip_comma from_end) < length ptr"
  proof (cases from_end)
    case Nil
    then show ?thesis using ne by (simp add: skip_comma_def)
  next
    case (Cons a as)
    then show ?thesis using hd le by (simp add: skip_comma_def)
  qed
  then show "(skip_comma from_end, ptr) \<in> measure length" by simp
qed

definition build_sqlstate_array :: "string \<Rightarrow> string option list" where
  "build_sqlstate_array csv = (if csv = [] then [] else map Some (sqlstate_tokens csv))"

section \<open>One attempt\<close>

text \<open>
  The variables of \<^verbatim>\<open>pg_retry_retry\<close> that the loop assigns: \<^verbatim>\<open>processed_rows\<close> and
  \<^verbatim>\<open>success\<close> in both files, \<^verbatim>\<open>last_error\<close> in \<^verbatim>\<open>src/pg_retry.c\<close> only.
\<close>

record retry_state =
  processed_rows :: "32 word"
  success :: bool

record retry_state_A = retry_state +
  last_error :: "ErrorData option"

text \<open>
  The body of \<^verbatim>\<open>PG_TRY\<close>: the state it leaves, and the error with which it is left for the
  handler, if any. A negative result code of \<^verbatim>\<open>SPI_execute\<close> is reported as an \<^verbatim>\<open>ERROR\<close>,
  which the handler catches like any other. Otherwise \<^verbatim>\<open>SPI_processed\<close> is assigned to the
  \<^verbatim>\<open>int\<close> \<^verbatim>\<open>processed_rows\<close> and \<^verbatim>\<open>success\<close> is set, and only then is the subtransaction
  released: an error raised by the release reaches the handler with \<^verbatim>\<open>success\<close> already
  true.
\<close>

definition try_body ::
  "host \<Rightarrow> int \<Rightarrow> 'a retry_state_scheme \<Rightarrow> 'a retry_state_scheme \<times> ErrorData option" where
  "try_body h attempt st =
     (case SPI_execute h attempt of
        Raised e \<Rightarrow> (st, Some e)
      | Executed spi_result SPI_processed \<Rightarrow>
          if spi_result < 0 then
            (st, Some \<lparr>sqlerrcode = ERRCODE_INTERNAL_ERROR,
                       message = Some (''pg_retry: SPI_execute failed with code ''
                                        @ show_int spi_result)\<rparr>)
          else
            (st\<lparr>processed_rows := ucast SPI_processed, success := True\<rparr>,
             ReleaseCurrentSubTransaction h attempt))"

text \<open>The handler's flag \<^verbatim>\<open>should_retry\<close> and the warning it reports when it sets the flag.\<close>

definition should_retry :: "string option list \<Rightarrow> ErrorData \<Rightarrow> bool" where
  "should_retry retry_sqlstates errdata =
     (if sqlerrcode errdata \<noteq> 0 then
        is_retryable_sqlstate (unpack_sql_state (sqlerrcode errdata)) retry_sqlstates
      else False)"

definition retry_warning :: "int \<Rightarrow> int \<Rightarrow> ErrorData \<Rightarrow> event" where
  "retry_warning attempt max_tries errdata =
     Warning attempt (sqlerrcode errdata)
       (''pg_retry: attempt '' @ show_int attempt @ ''/'' @ show_int max_tries
          @ '' failed with SQLSTATE '' @ unpack_sql_state (sqlerrcode errdata) @ '': ''
          @ (case message errdata of Some m \<Rightarrow> m | None \<Rightarrow> ''unknown error''))"

definition log_retry :: "string option list \<Rightarrow> int \<Rightarrow> int \<Rightarrow> ErrorData \<Rightarrow> event list" where
  "log_retry retry_sqlstates attempt max_tries errdata =
     (if should_retry retry_sqlstates errdata then [retry_warning attempt max_tries errdata]
      else [])"

definition backoff :: "host \<Rightarrow> int \<Rightarrow> int \<Rightarrow> int \<Rightarrow> event" where
  "backoff h attempt base_delay_ms max_delay_ms =
     Sleep attempt (calculate_delay h attempt base_delay_ms max_delay_ms * 1000)"

section \<open>The retry loop of \<^verbatim>\<open>src/src/pg_retry.c\<close>\<close>

text \<open>
  How one pass through the body of the \<^verbatim>\<open>for\<close> loop ends: at its closing brace
  (\<open>Continue\<close>, with \<^verbatim>\<open>attempt++\<close> to follow), at \<^verbatim>\<open>break\<close>, or by leaving the function with
  an error.
\<close>

datatype 'st flow = Continue 'st | Break 'st | Leave outcome

text \<open>
  The body of the loop: the events of the pass, and how it ends. After \<^verbatim>\<open>PG_END_TRY\<close> the
  source tests \<^verbatim>\<open>success\<close>, whether or not the handler has run.
\<close>

definition loop_body_B ::
  "host \<Rightarrow> int \<Rightarrow> int \<Rightarrow> int \<Rightarrow> string option list \<Rightarrow> retry_state \<Rightarrow> int
     \<Rightarrow> event list \<times> retry_state flow" where
  "loop_body_B h max_tries base_delay_ms max_delay_ms retry_sqlstates st attempt =
     (case try_body h attempt st of
        (st1, None) \<Rightarrow> ([SubXact attempt], if success st1 then Break st1 else Continue st1)
      | (st1, Some errdata) \<Rightarrow>
          if \<not> should_retry retry_sqlstates errdata \<or> attempt = max_tries then
            (SubXact attempt # log_retry retry_sqlstates attempt max_tries errdata,
             Leave (ReThrowError errdata))
          else if attempt < max_tries then
            (SubXact attempt # log_retry retry_sqlstates attempt max_tries errdata
               @ [backoff h attempt base_delay_ms max_delay_ms],
             case CHECK_FOR_INTERRUPTS h attempt of
               Some e \<Rightarrow> Leave (host_ERROR e)
             | None \<Rightarrow> if success st1 then Break st1 else Continue st1)
          else
            (SubXact attempt # log_retry retry_sqlstates attempt max_tries errdata,
             if success st1 then Break st1 else Continue st1))"

text \<open>After the loop: \<^verbatim>\<open>SPI_finish\<close>, then the final result.\<close>

definition after_loop_B :: "retry_state \<Rightarrow> outcome" where
  "after_loop_B st =
     (if success st then PG_RETURN_INT32 (processed_rows st)
      else ereport_ERROR \<lparr>sqlerrcode = ERRCODE_INTERNAL_ERROR,
             message = Some ''pg_retry: unexpected error state''\<rparr>)"

function retry_loop_B ::
  "host \<Rightarrow> int \<Rightarrow> int \<Rightarrow> int \<Rightarrow> string option list \<Rightarrow> retry_state \<Rightarrow> int \<Rightarrow> run" where
  "retry_loop_B h max_tries base_delay_ms max_delay_ms retry_sqlstates st attempt =
     (if attempt \<le> max_tries then
        (case loop_body_B h max_tries base_delay_ms max_delay_ms retry_sqlstates st attempt of
           (es, Leave out) \<Rightarrow> (out, es)
         | (es, Break st') \<Rightarrow> (after_loop_B st', es)
         | (es, Continue st') \<Rightarrow>
             if attempt = INT_MAX then (Overflow, es)
             else emit es (retry_loop_B h max_tries base_delay_ms max_delay_ms
                             retry_sqlstates st' (attempt + 1)))
      else (after_loop_B st, []))"
  by pat_completeness auto
termination
  by (relation "measure (\<lambda>(h, max_tries, b, m, c, st, attempt). nat (max_tries + 1 - attempt))")
    auto

section \<open>The retry loop of \<^verbatim>\<open>src/pg_retry.c\<close>\<close>

definition loop_body_A ::
  "host \<Rightarrow> int \<Rightarrow> int \<Rightarrow> int \<Rightarrow> string option list \<Rightarrow> retry_state_A \<Rightarrow> int
     \<Rightarrow> event list \<times> retry_state_A flow" where
  "loop_body_A h max_tries base_delay_ms max_delay_ms retry_sqlstates st attempt =
     (case try_body h attempt st of
        (st1, None) \<Rightarrow> ([SubXact attempt], if success st1 then Break st1 else Continue st1)
      | (st1, Some errdata) \<Rightarrow>
          if \<not> should_retry retry_sqlstates errdata \<or> attempt = max_tries then
            (SubXact attempt # log_retry retry_sqlstates attempt max_tries errdata,
             if success st1 then Break (st1\<lparr>last_error := Some errdata\<rparr>)
             else Continue (st1\<lparr>last_error := Some errdata\<rparr>))
          else if attempt < max_tries then
            (SubXact attempt # log_retry retry_sqlstates attempt max_tries errdata
               @ [backoff h attempt base_delay_ms max_delay_ms],
             case CHECK_FOR_INTERRUPTS h attempt of
               Some e \<Rightarrow> Leave (host_ERROR e)
             | None \<Rightarrow> if success st1 then Break st1 else Continue st1)
          else
            (SubXact attempt # log_retry retry_sqlstates attempt max_tries errdata,
             if success st1 then Break st1 else Continue st1))"

definition after_loop_A :: "retry_state_A \<Rightarrow> outcome" where
  "after_loop_A st =
     (if success st then PG_RETURN_INT32 (processed_rows st)
      else (case last_error st of
              Some e \<Rightarrow> ReThrowError e
            | None \<Rightarrow> ereport_ERROR \<lparr>sqlerrcode = ERRCODE_INTERNAL_ERROR,
                         message = Some ''pg_retry: all retry attempts failed''\<rparr>))"

function retry_loop_A ::
  "host \<Rightarrow> int \<Rightarrow> int \<Rightarrow> int \<Rightarrow> string option list \<Rightarrow> retry_state_A \<Rightarrow> int \<Rightarrow> run" where
  "retry_loop_A h max_tries base_delay_ms max_delay_ms retry_sqlstates st attempt =
     (if attempt \<le> max_tries then
        (case loop_body_A h max_tries base_delay_ms max_delay_ms retry_sqlstates st attempt of
           (es, Leave out) \<Rightarrow> (out, es)
         | (es, Break st') \<Rightarrow> (after_loop_A st', es)
         | (es, Continue st') \<Rightarrow>
             if attempt = INT_MAX then (Overflow, es)
             else emit es (retry_loop_A h max_tries base_delay_ms max_delay_ms
                             retry_sqlstates st' (attempt + 1)))
      else (after_loop_A st, []))"
  by pat_completeness auto
termination
  by (relation "measure (\<lambda>(h, max_tries, b, m, c, st, attempt). nat (max_tries + 1 - attempt))")
    auto

section \<open>The entry points\<close>

text \<open>
  \<^verbatim>\<open>pg_retry_retry\<close> of \<^verbatim>\<open>src/src/pg_retry.c\<close>: the arguments and their defaults, the checks
  in the order of the source, \<^verbatim>\<open>SPI_connect_ext\<close>, then the loop from \<^verbatim>\<open>attempt = 1\<close> with
  \<^verbatim>\<open>processed_rows = 0\<close> and \<^verbatim>\<open>success = false\<close>.
\<close>

definition pg_retry_retry_B :: "host \<Rightarrow> guc \<Rightarrow> fcinfo \<Rightarrow> run" where
  "pg_retry_retry_B h g fc =
     (case arg0 fc of
        None \<Rightarrow>
          (ereport_ERROR \<lparr>sqlerrcode = ERRCODE_NULL_VALUE_NOT_ALLOWED,
             message = Some ''pg_retry: sql parameter cannot be null''\<rparr>, [])
      | Some sql \<Rightarrow>
          (let max_tries = (case arg1 fc of None \<Rightarrow> pg_retry_default_max_tries g | Some v \<Rightarrow> v);
               base_delay_ms =
                 (case arg2 fc of None \<Rightarrow> pg_retry_default_base_delay_ms g | Some v \<Rightarrow> v);
               max_delay_ms =
                 (case arg3 fc of None \<Rightarrow> pg_retry_default_max_delay_ms g | Some v \<Rightarrow> v);
               retry_sqlstates =
                 (case arg4 fc of
                    None \<Rightarrow> build_sqlstate_array (pg_retry_default_sqlstates_str g)
                  | Some a \<Rightarrow> a)
           in if max_tries < 1 then
                (ereport_ERROR \<lparr>sqlerrcode = ERRCODE_INVALID_PARAMETER_VALUE,
                   message = Some ''pg_retry: max_tries must be >= 1''\<rparr>, [])
              else if base_delay_ms < 0 \<or> max_delay_ms < 0 then
                (ereport_ERROR \<lparr>sqlerrcode = ERRCODE_INVALID_PARAMETER_VALUE,
                   message = Some ''pg_retry: delay parameters must be >= 0''\<rparr>, [])
              else if base_delay_ms > max_delay_ms then
                (ereport_ERROR \<lparr>sqlerrcode = ERRCODE_INVALID_PARAMETER_VALUE,
                   message =
                     Some ''pg_retry: base_delay_ms cannot be greater than max_delay_ms''\<rparr>, [])
              else
                (case validate_sql h sql of
                   Inl out \<Rightarrow> (out, [])
                 | Inr parsed_tree \<Rightarrow>
                     if SPI_connect_ext h \<noteq> SPI_OK_CONNECT then
                       (ereport_ERROR \<lparr>sqlerrcode = ERRCODE_CONNECTION_FAILURE,
                          message = Some ''pg_retry: SPI_connect failed''\<rparr>, [])
                     else
                       retry_loop_B h max_tries base_delay_ms max_delay_ms retry_sqlstates
                         \<lparr>processed_rows = 0, success = False\<rparr> 1)))"

text \<open>
  \<^verbatim>\<open>pg_retry_retry\<close> of \<^verbatim>\<open>src/pg_retry.c\<close>: the same, with the default list split by the
  host's \<^verbatim>\<open>text_to_array\<close> and \<^verbatim>\<open>last_error = NULL\<close> at the start.
\<close>

definition pg_retry_retry_A :: "host \<Rightarrow> guc \<Rightarrow> fcinfo \<Rightarrow> run" where
  "pg_retry_retry_A h g fc =
     (case arg0 fc of
        None \<Rightarrow>
          (ereport_ERROR \<lparr>sqlerrcode = ERRCODE_NULL_VALUE_NOT_ALLOWED,
             message = Some ''pg_retry: sql parameter cannot be null''\<rparr>, [])
      | Some sql \<Rightarrow>
          (let max_tries = (case arg1 fc of None \<Rightarrow> pg_retry_default_max_tries g | Some v \<Rightarrow> v);
               base_delay_ms =
                 (case arg2 fc of None \<Rightarrow> pg_retry_default_base_delay_ms g | Some v \<Rightarrow> v);
               max_delay_ms =
                 (case arg3 fc of None \<Rightarrow> pg_retry_default_max_delay_ms g | Some v \<Rightarrow> v);
               retry_sqlstates =
                 (case arg4 fc of
                    None \<Rightarrow> text_to_array h (pg_retry_default_sqlstates_str g)
                  | Some a \<Rightarrow> a)
           in if max_tries < 1 then
                (ereport_ERROR \<lparr>sqlerrcode = ERRCODE_INVALID_PARAMETER_VALUE,
                   message = Some ''pg_retry: max_tries must be >= 1''\<rparr>, [])
              else if base_delay_ms < 0 \<or> max_delay_ms < 0 then
                (ereport_ERROR \<lparr>sqlerrcode = ERRCODE_INVALID_PARAMETER_VALUE,
                   message = Some ''pg_retry: delay parameters must be >= 0''\<rparr>, [])
              else if base_delay_ms > max_delay_ms then
                (ereport_ERROR \<lparr>sqlerrcode = ERRCODE_INVALID_PARAMETER_VALUE,
                   message =
                     Some ''pg_retry: base_delay_ms cannot be greater than max_delay_ms''\<rparr>, [])
              else
                (case validate_sql h sql of
                   Inl out \<Rightarrow> (out, [])
                 | Inr parsed_tree \<Rightarrow>
                     if SPI_connect_ext h \<noteq> SPI_OK_CONNECT then
                       (ereport_ERROR \<lparr>sqlerrcode = ERRCODE_CONNECTION_FAILURE,
                          message = Some ''pg_retry: SPI_connect failed''\<rparr>, [])
                     else
                       retry_loop_A h max_tries base_delay_ms max_delay_ms retry_sqlstates
                         \<lparr>processed_rows = 0, success = False, last_error = None\<rparr> 1)))"

section \<open>What is observed of a run\<close>

fun is_attempt :: "event \<Rightarrow> bool" where
  "is_attempt (SubXact n) = True"
| "is_attempt (Warning n c m) = False"
| "is_attempt (Sleep n us) = False"

fun is_warning :: "event \<Rightarrow> bool" where
  "is_warning (SubXact n) = False"
| "is_warning (Warning n c m) = True"
| "is_warning (Sleep n us) = False"

fun is_sleep :: "event \<Rightarrow> bool" where
  "is_sleep (SubXact n) = False"
| "is_sleep (Warning n c m) = False"
| "is_sleep (Sleep n us) = True"

definition attempts :: "run \<Rightarrow> nat" where
  "attempts r = length (filter is_attempt (snd r))"

definition warnings :: "run \<Rightarrow> event list" where
  "warnings r = filter is_warning (snd r)"

definition sleeps :: "run \<Rightarrow> event list" where
  "sleeps r = filter is_sleep (snd r)"

text \<open>The row count the caller receives, and the error it receives.\<close>

fun returned :: "outcome \<Rightarrow> 32 word option" where
  "returned (PG_RETURN_INT32 rows) = Some rows"
| "returned (ReThrowError e) = None"
| "returned (ereport_ERROR e) = None"
| "returned (host_ERROR e) = None"
| "returned Overflow = None"

fun propagated :: "outcome \<Rightarrow> ErrorData option" where
  "propagated (PG_RETURN_INT32 rows) = None"
| "propagated (ReThrowError e) = Some e"
| "propagated (ereport_ERROR e) = Some e"
| "propagated (host_ERROR e) = Some e"
| "propagated Overflow = None"

text \<open>
  The error the handler catches in attempt \<open>n\<close> when the execution of the statement fails
  (the error is raised before \<^verbatim>\<open>success\<close> is set); whether that attempt fails so with an
  error the handler classifies as retryable; and three conditions on a whole invocation:
  every attempt up to \<open>max_tries\<close> fails retryably, no cancellation is pending at any of
  its interrupt checks, and no release of a subtransaction raises.
\<close>

definition caught :: "host \<Rightarrow> int \<Rightarrow> ErrorData option" where
  "caught h n =
     (case SPI_execute h n of
        Raised e \<Rightarrow> Some e
      | Executed spi_result SPI_processed \<Rightarrow>
          if spi_result < 0 then
            Some \<lparr>sqlerrcode = ERRCODE_INTERNAL_ERROR,
                   message = Some (''pg_retry: SPI_execute failed with code ''
                                    @ show_int spi_result)\<rparr>
          else None)"

definition fails_retryably :: "host \<Rightarrow> string option list \<Rightarrow> int \<Rightarrow> bool" where
  "fails_retryably h retry_sqlstates n =
     (case caught h n of Some e \<Rightarrow> should_retry retry_sqlstates e | None \<Rightarrow> False)"

definition all_fail_retryably :: "host \<Rightarrow> string option list \<Rightarrow> int \<Rightarrow> bool" where
  "all_fail_retryably h retry_sqlstates max_tries =
     (\<forall>n \<in> set [1..max_tries]. fails_retryably h retry_sqlstates n)"

definition uninterrupted :: "host \<Rightarrow> int \<Rightarrow> bool" where
  "uninterrupted h max_tries = (\<forall>n \<in> set [1..max_tries]. CHECK_FOR_INTERRUPTS h n = None)"

definition released_quietly :: "host \<Rightarrow> int \<Rightarrow> bool" where
  "released_quietly h max_tries =
     (\<forall>n \<in> set [1..max_tries]. ReleaseCurrentSubTransaction h n = None)"

text \<open>
  The values an invocation works with: the argument, or the GUC default when the argument
  is null; and the condition under which the three parameter checks reject them.
\<close>

definition max_tries_of :: "guc \<Rightarrow> fcinfo \<Rightarrow> int" where
  "max_tries_of g fc = (case arg1 fc of None \<Rightarrow> pg_retry_default_max_tries g | Some v \<Rightarrow> v)"

definition base_delay_ms_of :: "guc \<Rightarrow> fcinfo \<Rightarrow> int" where
  "base_delay_ms_of g fc =
     (case arg2 fc of None \<Rightarrow> pg_retry_default_base_delay_ms g | Some v \<Rightarrow> v)"

definition max_delay_ms_of :: "guc \<Rightarrow> fcinfo \<Rightarrow> int" where
  "max_delay_ms_of g fc =
     (case arg3 fc of None \<Rightarrow> pg_retry_default_max_delay_ms g | Some v \<Rightarrow> v)"

definition invalid_parameters :: "guc \<Rightarrow> fcinfo \<Rightarrow> bool" where
  "invalid_parameters g fc =
     (max_tries_of g fc < 1 \<or> base_delay_ms_of g fc < 0 \<or> max_delay_ms_of g fc < 0
      \<or> base_delay_ms_of g fc > max_delay_ms_of g fc)"

text \<open>
  Every attempt before the last one allowed either succeeds or fails with an error the
  handler classifies as retryable.
\<close>

definition retryable_before_last :: "host \<Rightarrow> string option list \<Rightarrow> int \<Rightarrow> bool" where
  "retryable_before_last h retry_sqlstates max_tries =
     (\<forall>n \<in> set [1..max_tries - 1].
        case caught h n of Some e \<Rightarrow> should_retry retry_sqlstates e | None \<Rightarrow> True)"

text \<open>
  Where the sleeps of a trace stand: \<open>cur\<close> is the attempt that has just run (\<open>0\<close> when
  none has, or when a sleep has followed it already). A sleep is in place when it follows
  the attempt it is computed for, and that attempt is not the last one allowed.
\<close>

fun sleeps_between :: "int \<Rightarrow> int \<Rightarrow> event list \<Rightarrow> bool" where
  "sleeps_between max_tries cur [] = True"
| "sleeps_between max_tries cur (SubXact n # es) = sleeps_between max_tries n es"
| "sleeps_between max_tries cur (Warning n c m # es) = sleeps_between max_tries cur es"
| "sleeps_between max_tries cur (Sleep n us # es) =
     (n = cur \<and> 1 \<le> cur \<and> cur < max_tries \<and> sleeps_between max_tries 0 es)"

section \<open>Scenarios\<close>

text \<open>
  The configuration as shipped, and a host that parses every text as one \<^verbatim>\<open>UPDATE\<close>,
  connects, is never interrupted and draws 0.5 every time; \<open>fails_with c\<close> is the
  error with code \<open>c\<close> that attempt \<open>n\<close> raises.
\<close>

definition shipped :: guc where
  "shipped = \<lparr>pg_retry_default_max_tries = 3, pg_retry_default_base_delay_ms = 50,
     pg_retry_default_max_delay_ms = 1000,
     pg_retry_default_sqlstates_str = ''40001,40P01,55P03,57014''\<rparr>"

definition fails_with :: "int \<Rightarrow> int \<Rightarrow> attempt_outcome" where
  "fails_with c n = Raised \<lparr>sqlerrcode = c, message = Some (''failure '' @ show_int n)\<rparr>"

definition quiet_host :: "(int \<Rightarrow> attempt_outcome) \<Rightarrow> host" where
  "quiet_host exec =
     \<lparr>pg_parse_query = (\<lambda>sql. Inr [\<lparr>stmt = T_UpdateStmt\<rparr>]),
      SPI_connect_ext = SPI_OK_CONNECT,
      SPI_execute = exec,
      ReleaseCurrentSubTransaction = (\<lambda>n. None),
      uniform = (\<lambda>n. Finite (1 / 2)),
      CHECK_FOR_INTERRUPTS = (\<lambda>n. None),
      text_to_array = (\<lambda>csv. map Some [''40001'', ''40P01'', ''55P03'', ''57014''])\<rparr>"

definition SPI_OK_UPDATE :: int where
  "SPI_OK_UPDATE = 9"

text \<open>
  A statement that fails with code \<open>c\<close> in attempt 1 and updates 7 rows in every later
  attempt; one that fails in attempts 1 and 2; and a host whose parser reads a single
  transaction-control statement.
\<close>

definition fails_once :: "int \<Rightarrow> int \<Rightarrow> attempt_outcome" where
  "fails_once c n = (if n = 1 then fails_with c n else Executed SPI_OK_UPDATE 7)"

definition fails_twice :: "int \<Rightarrow> int \<Rightarrow> attempt_outcome" where
  "fails_twice c n = (if n < 3 then fails_with c n else Executed SPI_OK_UPDATE 7)"

definition commit_host :: host where
  "commit_host =
     (quiet_host (fails_with 0))\<lparr>pg_parse_query := (\<lambda>sql. Inr [\<lparr>stmt = T_TransactionStmt\<rparr>])\<rparr>"

text \<open>
  A host at which a cancellation is pending after the first sleep, while the statement
  fails with \<^verbatim>\<open>40001\<close> in every attempt; and one at which the statement updates 7 rows in
  every attempt, and every release of the subtransaction raises \<^verbatim>\<open>40001\<close>.
\<close>

definition ERRCODE_T_R_SERIALIZATION_FAILURE :: int where
  "ERRCODE_T_R_SERIALIZATION_FAILURE =
     MAKE_SQLSTATE CHR ''4'' CHR ''0'' CHR ''0'' CHR ''0'' CHR ''1''"

definition ERRCODE_QUERY_CANCELED :: int where
  "ERRCODE_QUERY_CANCELED = MAKE_SQLSTATE CHR ''5'' CHR ''7'' CHR ''0'' CHR ''1'' CHR ''4''"

definition cancel_after_first_sleep :: "int \<Rightarrow> ErrorData option" where
  "cancel_after_first_sleep n =
     (if n = 1 then
        Some \<lparr>sqlerrcode = ERRCODE_QUERY_CANCELED,
               message = Some ''canceling statement due to user request''\<rparr>
      else None)"

definition cancelling_host :: host where
  "cancelling_host =
     (quiet_host (fails_with ERRCODE_T_R_SERIALIZATION_FAILURE))
       \<lparr>CHECK_FOR_INTERRUPTS := cancel_after_first_sleep\<rparr>"

definition updates_7 :: "int \<Rightarrow> attempt_outcome" where
  "updates_7 n = Executed SPI_OK_UPDATE 7"

definition release_host :: host where
  "release_host =
     (quiet_host updates_7)
       \<lparr>ReleaseCurrentSubTransaction :=
          (\<lambda>n. Some \<lparr>sqlerrcode = ERRCODE_T_R_SERIALIZATION_FAILURE,
                       message = Some ''could not serialize access''\<rparr>)\<rparr>"

text \<open>A host whose draws are all 0.125.\<close>

definition low_draw_host :: host where
  "low_draw_host = (quiet_host updates_7)\<lparr>uniform := (\<lambda>n. Finite (1 / 8))\<rparr>"

definition call :: "int \<Rightarrow> fcinfo" where
  "call max_tries = \<lparr>arg0 = Some ''UPDATE t SET x=1'', arg1 = Some max_tries, arg2 = None,
     arg3 = None, arg4 = None\<rparr>"

definition default_sqlstates :: "string option list" where
  "default_sqlstates = build_sqlstate_array (pg_retry_default_sqlstates_str shipped)"

definition ERRCODE_DIVISION_BY_ZERO :: int where
  "ERRCODE_DIVISION_BY_ZERO = MAKE_SQLSTATE CHR ''2'' CHR ''2'' CHR ''0'' CHR ''1'' CHR ''2''"

section \<open>Error classification\<close>

lemma strcmp_eq_0: "strcmp a b = 0 \<longleftrightarrow> a = b"
  by (induction a b rule: strcmp.induct) auto

lemma is_retryable_sqlstate_mem:
  "is_retryable_sqlstate sqlstate elements \<longleftrightarrow> Some sqlstate \<in> set elements"
  by (induction sqlstate elements rule: is_retryable_sqlstate.induct) (auto simp: strcmp_eq_0)

text \<open>
  C8. \<^verbatim>\<open>is_retryable_sqlstate\<close> is true exactly when some non-null element of the array is
  equal, character for character, to the code; and the handler classifies an error as
  retryable exactly when its \<^verbatim>\<open>sqlerrcode\<close> is not 0 (it carries a code) and the unpacked
  code is such an element. An error with \<^verbatim>\<open>sqlerrcode = 0\<close> is therefore never retryable,
  whatever the array holds.
\<close>

theorem classification_is_exact_membership:
  "is_retryable_sqlstate sqlstate retry_sqlstates = (Some sqlstate \<in> set retry_sqlstates)
   \<and> should_retry retry_sqlstates errdata =
       (sqlerrcode errdata \<noteq> 0
        \<and> Some (unpack_sql_state (sqlerrcode errdata)) \<in> set retry_sqlstates)"
  by (simp add: is_retryable_sqlstate_mem should_retry_def)

section \<open>The loops, one pass at a time\<close>

declare retry_loop_B.simps [simp del]
declare retry_loop_A.simps [simp del]

lemma fst_emit [simp]: "fst (emit es r) = fst r"
  by (simp add: emit_def)

lemma snd_emit [simp]: "snd (emit es r) = es @ snd r"
  by (simp add: emit_def)

lemma attempts_emit: "attempts (emit es r) = length (filter is_attempt es) + attempts r"
  by (simp add: attempts_def)

lemma attempts_pair: "attempts (out, es) = length (filter is_attempt es)"
  by (simp add: attempts_def)

lemma log_retry_no_attempt [simp]: "filter is_attempt (log_retry c a m e) = []"
  by (simp add: log_retry_def retry_warning_def)

lemma try_body_None: "try_body h a st = (st1, None) \<Longrightarrow> success st1"
  by (auto simp: try_body_def split: attempt_outcome.splits if_splits)

lemma try_body_not_success:
  "try_body h a st = (st1, oe) \<Longrightarrow> \<not> success st1 \<Longrightarrow> st1 = st"
  by (auto simp: try_body_def split: attempt_outcome.splits if_splits)

lemma caught_SomeD: "caught h n = Some e \<Longrightarrow> try_body h n st = (st, Some e)"
  by (auto simp: caught_def try_body_def split: attempt_outcome.splits if_splits)

lemma caught_NoneD:
  "caught h n = None \<Longrightarrow> ReleaseCurrentSubTransaction h n = None \<Longrightarrow>
   \<exists>rows. try_body h n sa = (sa\<lparr>processed_rows := rows, success := True\<rparr>, None)
        \<and> try_body h n sb = (sb\<lparr>processed_rows := rows, success := True\<rparr>, None)"
  by (auto simp: caught_def try_body_def split: attempt_outcome.splits if_splits)

lemma loop_body_B_success:
  "try_body h a st = (st1, None) \<Longrightarrow> loop_body_B h m b d c st a = ([SubXact a], Break st1)"
  using try_body_None [of h a st st1] by (simp add: loop_body_B_def)

lemma loop_body_B_rethrow:
  "try_body h a st = (st1, Some e) \<Longrightarrow> \<not> should_retry c e \<or> a = m \<Longrightarrow>
   loop_body_B h m b d c st a = (SubXact a # log_retry c a m e, Leave (ReThrowError e))"
  by (auto simp add: loop_body_B_def)

lemma loop_body_B_retry:
  "try_body h a st = (st1, Some e) \<Longrightarrow> should_retry c e \<Longrightarrow> a < m \<Longrightarrow>
   loop_body_B h m b d c st a =
     ([SubXact a, retry_warning a m e, backoff h a b d],
      case CHECK_FOR_INTERRUPTS h a of
        Some e' \<Rightarrow> Leave (host_ERROR e')
      | None \<Rightarrow> if success st1 then Break st1 else Continue st1)"
  by (simp add: loop_body_B_def log_retry_def)

lemma loop_body_B_Continue:
  assumes "loop_body_B h m b d c st a = (es, Continue st')" and "a \<le> m"
  shows "st' = st \<and> a < m \<and> \<not> success st'"
  using assms
  by (auto simp: loop_body_B_def split: prod.splits if_splits option.splits
      dest: try_body_not_success try_body_None)

lemma loop_body_B_Break:
  assumes "loop_body_B h m b d c st a = (es, Break st')"
  shows "success st'"
  using assms
  by (auto simp: loop_body_B_def split: prod.splits if_splits option.splits)

lemma loop_body_B_Leave:
  assumes "loop_body_B h m b d c st a = (es, Leave out)"
  shows "(\<exists>e. out = ReThrowError e) \<or> (\<exists>e. out = host_ERROR e)"
  using assms
  by (auto simp: loop_body_B_def split: prod.splits if_splits option.splits)

lemma retry_loop_B_Leave:
  "attempt \<le> m \<Longrightarrow> loop_body_B h m b d c st attempt = (es, Leave out) \<Longrightarrow>
   retry_loop_B h m b d c st attempt = (out, es)"
  by (subst retry_loop_B.simps) simp

lemma retry_loop_B_Break:
  "attempt \<le> m \<Longrightarrow> loop_body_B h m b d c st attempt = (es, Break st') \<Longrightarrow>
   retry_loop_B h m b d c st attempt = (after_loop_B st', es)"
  by (subst retry_loop_B.simps) simp

lemma retry_loop_B_Overflow:
  "attempt \<le> m \<Longrightarrow> loop_body_B h m b d c st attempt = (es, Continue st') \<Longrightarrow>
   attempt = INT_MAX \<Longrightarrow> retry_loop_B h m b d c st attempt = (Overflow, es)"
  by (subst retry_loop_B.simps) simp

lemma retry_loop_B_Continue:
  "attempt \<le> m \<Longrightarrow> loop_body_B h m b d c st attempt = (es, Continue st') \<Longrightarrow>
   attempt \<noteq> INT_MAX \<Longrightarrow>
   retry_loop_B h m b d c st attempt = emit es (retry_loop_B h m b d c st' (attempt + 1))"
  by (subst retry_loop_B.simps) simp

lemma retry_loop_B_done:
  "\<not> attempt \<le> m \<Longrightarrow> retry_loop_B h m b d c st attempt = (after_loop_B st, [])"
  by (subst retry_loop_B.simps) simp

lemma retry_loop_B_no_ereport:
  "attempt \<le> max_tries \<Longrightarrow>
   fst (retry_loop_B h max_tries b d c st attempt) \<noteq> ereport_ERROR e"
proof (induction h max_tries b d c st attempt rule: retry_loop_B.induct)
  case (1 h max_tries b d c st attempt)
  obtain es fl where body: "loop_body_B h max_tries b d c st attempt = (es, fl)"
    by (cases "loop_body_B h max_tries b d c st attempt")
  show ?case
  proof (cases fl)
    case (Continue st')
    with body "1.prems" have st': "attempt < max_tries"
      using loop_body_B_Continue by blast
    show ?thesis
    proof (cases "attempt = INT_MAX")
      case True
      then show ?thesis
        using retry_loop_B_Overflow [OF "1.prems"(1) body [unfolded Continue]] by simp
    next
      case False
      have "fst (retry_loop_B h max_tries b d c st' (attempt + 1)) \<noteq> ereport_ERROR e"
        using "1.IH" [OF "1.prems"(1) body [symmetric] Continue False] st' by simp
      then show ?thesis
        using retry_loop_B_Continue [OF "1.prems"(1) body [unfolded Continue] False] by simp
    qed
  next
    case (Break st')
    with body have "success st'" using loop_body_B_Break by blast
    then show ?thesis
      using retry_loop_B_Break [OF "1.prems"(1) body [unfolded Break]]
      by (simp add: after_loop_B_def)
  next
    case (Leave out)
    with body have "(\<exists>e. out = ReThrowError e) \<or> (\<exists>e. out = host_ERROR e)"
      using loop_body_B_Leave by blast
    then show ?thesis
      using retry_loop_B_Leave [OF "1.prems"(1) body [unfolded Leave]] by auto
  qed
qed

lemma loop_body_A_success:
  "try_body h a st = (st1, None) \<Longrightarrow> loop_body_A h m b d c st a = ([SubXact a], Break st1)"
  using try_body_None [of h a st st1] by (simp add: loop_body_A_def)

lemma loop_body_A_save:
  "try_body h a st = (st1, Some e) \<Longrightarrow> \<not> should_retry c e \<or> a = m \<Longrightarrow>
   loop_body_A h m b d c st a =
     (SubXact a # log_retry c a m e,
      if success st1 then Break (st1\<lparr>last_error := Some e\<rparr>)
      else Continue (st1\<lparr>last_error := Some e\<rparr>))"
  by (auto simp add: loop_body_A_def)

lemma loop_body_A_retry:
  "try_body h a st = (st1, Some e) \<Longrightarrow> should_retry c e \<Longrightarrow> a < m \<Longrightarrow>
   loop_body_A h m b d c st a =
     ([SubXact a, retry_warning a m e, backoff h a b d],
      case CHECK_FOR_INTERRUPTS h a of
        Some e' \<Rightarrow> Leave (host_ERROR e')
      | None \<Rightarrow> if success st1 then Break st1 else Continue st1)"
  by (simp add: loop_body_A_def log_retry_def)

lemma loop_body_A_Continue:
  assumes "loop_body_A h m b d c st a = (es, Continue st')" and "a \<le> m"
  shows "\<not> success st' \<and> (a < m \<or> last_error st' \<noteq> None)"
  using assms
  by (auto simp: loop_body_A_def split: prod.splits if_splits option.splits
      dest: try_body_None)

lemma loop_body_A_Break:
  assumes "loop_body_A h m b d c st a = (es, Break st')"
  shows "success st'"
  using assms
  by (auto simp: loop_body_A_def split: prod.splits if_splits option.splits)

lemma loop_body_A_Leave:
  assumes "loop_body_A h m b d c st a = (es, Leave out)"
  shows "\<exists>e. out = host_ERROR e"
  using assms
  by (auto simp: loop_body_A_def split: prod.splits if_splits option.splits)

lemma retry_loop_A_Leave:
  "attempt \<le> m \<Longrightarrow> loop_body_A h m b d c st attempt = (es, Leave out) \<Longrightarrow>
   retry_loop_A h m b d c st attempt = (out, es)"
  by (subst retry_loop_A.simps) simp

lemma retry_loop_A_Break:
  "attempt \<le> m \<Longrightarrow> loop_body_A h m b d c st attempt = (es, Break st') \<Longrightarrow>
   retry_loop_A h m b d c st attempt = (after_loop_A st', es)"
  by (subst retry_loop_A.simps) simp

lemma retry_loop_A_Overflow:
  "attempt \<le> m \<Longrightarrow> loop_body_A h m b d c st attempt = (es, Continue st') \<Longrightarrow>
   attempt = INT_MAX \<Longrightarrow> retry_loop_A h m b d c st attempt = (Overflow, es)"
  by (subst retry_loop_A.simps) simp

lemma retry_loop_A_Continue:
  "attempt \<le> m \<Longrightarrow> loop_body_A h m b d c st attempt = (es, Continue st') \<Longrightarrow>
   attempt \<noteq> INT_MAX \<Longrightarrow>
   retry_loop_A h m b d c st attempt = emit es (retry_loop_A h m b d c st' (attempt + 1))"
  by (subst retry_loop_A.simps) simp

lemma retry_loop_A_done:
  "\<not> attempt \<le> m \<Longrightarrow> retry_loop_A h m b d c st attempt = (after_loop_A st, [])"
  by (subst retry_loop_A.simps) simp

lemma retry_loop_A_no_ereport:
  "attempt \<le> max_tries \<or> last_error st \<noteq> None \<Longrightarrow>
   fst (retry_loop_A h max_tries b d c st attempt) \<noteq> ereport_ERROR e"
proof (induction h max_tries b d c st attempt rule: retry_loop_A.induct)
  case (1 h max_tries b d c st attempt)
  show ?case
  proof (cases "attempt \<le> max_tries")
    case False
    with "1.prems" obtain e' where "last_error st = Some e'" by auto
    then show ?thesis
      using retry_loop_A_done [OF False] by (simp add: after_loop_A_def)
  next
    case le: True
    obtain es fl where body: "loop_body_A h max_tries b d c st attempt = (es, fl)"
      by (cases "loop_body_A h max_tries b d c st attempt")
    show ?thesis
    proof (cases fl)
      case (Continue st')
      with body le have st': "attempt < max_tries \<or> last_error st' \<noteq> None"
        using loop_body_A_Continue by blast
      show ?thesis
      proof (cases "attempt = INT_MAX")
        case True
        then show ?thesis
          using retry_loop_A_Overflow [OF le body [unfolded Continue]] by simp
      next
        case False
        from st' have "attempt + 1 \<le> max_tries \<or> last_error st' \<noteq> None" by auto
        then have "fst (retry_loop_A h max_tries b d c st' (attempt + 1)) \<noteq> ereport_ERROR e"
          using "1.IH" [OF le body [symmetric] Continue False] by simp
        then show ?thesis
          using retry_loop_A_Continue [OF le body [unfolded Continue] False] by simp
      qed
    next
      case (Break st')
      with body have "success st'" using loop_body_A_Break by blast
      then show ?thesis
        using retry_loop_A_Break [OF le body [unfolded Break]] by (simp add: after_loop_A_def)
    next
      case (Leave out)
      with body have "\<exists>e. out = host_ERROR e" using loop_body_A_Leave by blast
      then show ?thesis
        using retry_loop_A_Leave [OF le body [unfolded Leave]] by auto
    qed
  qed
qed

text \<open>
  C9. For every invocation that enters the loop (\<open>max_tries \<ge> 1\<close>, no success and no error
  recorded yet, \<open>attempt = 1\<close>), whatever the host does, neither file reaches the
  \<^verbatim>\<open>ereport(ERROR, ...)\<close> that follows its loop: \<^verbatim>\<open>"pg_retry: all retry attempts failed"\<close> in
  \<^verbatim>\<open>src/pg_retry.c\<close>, \<^verbatim>\<open>"pg_retry: unexpected error state"\<close> in \<^verbatim>\<open>src/src/pg_retry.c\<close>. These
  are the only \<open>ereport_ERROR\<close> outcomes of the loops.
\<close>

theorem internal_error_unreachable:
  assumes "1 \<le> max_tries"
  shows "fst (retry_loop_A h max_tries base_delay_ms max_delay_ms retry_sqlstates
                \<lparr>processed_rows = 0, success = False, last_error = None\<rparr> 1) \<noteq> ereport_ERROR e
       \<and> fst (retry_loop_B h max_tries base_delay_ms max_delay_ms retry_sqlstates
                \<lparr>processed_rows = 0, success = False\<rparr> 1) \<noteq> ereport_ERROR e"
  using assms retry_loop_A_no_ereport [of 1 max_tries] retry_loop_B_no_ereport [of 1 max_tries]
  by simp

theorem internal_error_unreachable_witness:
  "(1::int) \<le> 2
   \<and> fst (retry_loop_A (quiet_host (fails_with ERRCODE_DIVISION_BY_ZERO)) 2 50 1000 default_sqlstates
            \<lparr>processed_rows = 0, success = False, last_error = None\<rparr> 1)
        \<noteq> ereport_ERROR \<lparr>sqlerrcode = ERRCODE_INTERNAL_ERROR,
                           message = Some ''pg_retry: all retry attempts failed''\<rparr>
   \<and> fst (retry_loop_B (quiet_host (fails_with ERRCODE_DIVISION_BY_ZERO)) 2 50 1000 default_sqlstates
            \<lparr>processed_rows = 0, success = False\<rparr> 1)
        \<noteq> ereport_ERROR \<lparr>sqlerrcode = ERRCODE_INTERNAL_ERROR,
                           message = Some ''pg_retry: unexpected error state''\<rparr>"
proof -
  have m: "(1::int) \<le> 2" by simp
  show ?thesis
    using internal_error_unreachable [OF m] by simp
qed

section \<open>Exhaustion\<close>

lemma all_fail_retryablyD:
  "all_fail_retryably h c m \<Longrightarrow> 1 \<le> n \<Longrightarrow> n \<le> m \<Longrightarrow>
   \<exists>e. caught h n = Some e \<and> should_retry c e"
proof -
  assume "all_fail_retryably h c m" and "1 \<le> n" and "n \<le> m"
  then have "fails_retryably h c n"
    by (simp add: all_fail_retryably_def)
  then show ?thesis
    by (cases "caught h n") (simp_all add: fails_retryably_def)
qed

lemma uninterruptedD:
  "uninterrupted h m \<Longrightarrow> 1 \<le> n \<Longrightarrow> n \<le> m \<Longrightarrow> CHECK_FOR_INTERRUPTS h n = None"
  by (simp add: uninterrupted_def)

lemma exhaustion_B:
  assumes fail: "all_fail_retryably h c m" and quiet: "uninterrupted h m" and m: "m \<le> INT_MAX"
    and last: "caught h m = Some e"
  shows "1 \<le> attempt \<Longrightarrow> attempt \<le> m \<Longrightarrow> \<not> success st \<Longrightarrow>
     fst (retry_loop_B h m b d c st attempt) = ReThrowError e
     \<and> int (attempts (retry_loop_B h m b d c st attempt)) = m - attempt + 1"
proof (induction "nat (m - attempt)" arbitrary: attempt)
  case 0
  then have eq: "attempt = m" by simp
  from all_fail_retryablyD [OF fail "0.prems"(1,2)] last eq
  have e: "caught h attempt = Some e" "should_retry c e" by auto
  have "loop_body_B h m b d c st attempt =
      (SubXact attempt # log_retry c attempt m e, Leave (ReThrowError e))"
    using loop_body_B_rethrow [OF caught_SomeD [OF e(1)]] eq by simp
  from retry_loop_B_Leave [OF "0.prems"(2) this] show ?case
    using eq by (simp add: attempts_pair)
next
  case (Suc k)
  then have lt: "attempt < m" by linarith
  from all_fail_retryablyD [OF fail Suc.prems(1,2)]
  obtain e' where e': "caught h attempt = Some e'" "should_retry c e'" by auto
  have "loop_body_B h m b d c st attempt =
      ([SubXact attempt, retry_warning attempt m e', backoff h attempt b d], Continue st)"
    using loop_body_B_retry [OF caught_SomeD [OF e'(1)] e'(2) lt]
      uninterruptedD [OF quiet Suc.prems(1,2)] Suc.prems(3)
    by simp
  moreover have "attempt \<noteq> INT_MAX" using lt m by simp
  ultimately have unf: "retry_loop_B h m b d c st attempt =
      emit [SubXact attempt, retry_warning attempt m e', backoff h attempt b d]
        (retry_loop_B h m b d c st (attempt + 1))"
    using retry_loop_B_Continue [OF Suc.prems(2)] by simp
  have "k = nat (m - (attempt + 1))" using Suc.hyps(2) by linarith
  from Suc.hyps(1) [OF this] lt Suc.prems
  have "fst (retry_loop_B h m b d c st (attempt + 1)) = ReThrowError e
     \<and> int (attempts (retry_loop_B h m b d c st (attempt + 1))) = m - (attempt + 1) + 1"
    by simp
  then show ?case
    unfolding unf by (simp add: attempts_emit retry_warning_def backoff_def)
qed

lemma exhaustion_A:
  assumes fail: "all_fail_retryably h c m" and quiet: "uninterrupted h m" and m: "m < INT_MAX"
    and last: "caught h m = Some e"
  shows "1 \<le> attempt \<Longrightarrow> attempt \<le> m \<Longrightarrow> \<not> success st \<Longrightarrow>
     fst (retry_loop_A h m b d c st attempt) = ReThrowError e
     \<and> int (attempts (retry_loop_A h m b d c st attempt)) = m - attempt + 1"
proof (induction "nat (m - attempt)" arbitrary: attempt)
  case 0
  then have eq: "attempt = m" by simp
  from all_fail_retryablyD [OF fail "0.prems"(1,2)] last eq
  have e: "caught h attempt = Some e" "should_retry c e" by auto
  have "loop_body_A h m b d c st attempt =
      (SubXact attempt # log_retry c attempt m e, Continue (st\<lparr>last_error := Some e\<rparr>))"
    using loop_body_A_save [OF caught_SomeD [OF e(1)]] eq "0.prems"(3) by simp
  moreover have "attempt \<noteq> INT_MAX" using eq m by simp
  ultimately have "retry_loop_A h m b d c st attempt =
      emit (SubXact attempt # log_retry c attempt m e)
        (retry_loop_A h m b d c (st\<lparr>last_error := Some e\<rparr>) (attempt + 1))"
    using retry_loop_A_Continue [OF "0.prems"(2)] by simp
  moreover have "retry_loop_A h m b d c (st\<lparr>last_error := Some e\<rparr>) (attempt + 1) =
      (after_loop_A (st\<lparr>last_error := Some e\<rparr>), [])"
    using retry_loop_A_done [of "attempt + 1" m] eq by simp
  ultimately show ?case
    using eq "0.prems"(3) by (simp add: attempts_emit attempts_pair after_loop_A_def)
next
  case (Suc k)
  then have lt: "attempt < m" by linarith
  from all_fail_retryablyD [OF fail Suc.prems(1,2)]
  obtain e' where e': "caught h attempt = Some e'" "should_retry c e'" by auto
  have "loop_body_A h m b d c st attempt =
      ([SubXact attempt, retry_warning attempt m e', backoff h attempt b d], Continue st)"
    using loop_body_A_retry [OF caught_SomeD [OF e'(1)] e'(2) lt]
      uninterruptedD [OF quiet Suc.prems(1,2)] Suc.prems(3)
    by simp
  moreover have "attempt \<noteq> INT_MAX" using lt m by simp
  ultimately have unf: "retry_loop_A h m b d c st attempt =
      emit [SubXact attempt, retry_warning attempt m e', backoff h attempt b d]
        (retry_loop_A h m b d c st (attempt + 1))"
    using retry_loop_A_Continue [OF Suc.prems(2)] by simp
  have "k = nat (m - (attempt + 1))" using Suc.hyps(2) by linarith
  from Suc.hyps(1) [OF this] lt Suc.prems
  have "fst (retry_loop_A h m b d c st (attempt + 1)) = ReThrowError e
     \<and> int (attempts (retry_loop_A h m b d c st (attempt + 1))) = m - (attempt + 1) + 1"
    by simp
  then show ?case
    unfolding unf by (simp add: attempts_emit retry_warning_def backoff_def)
qed

text \<open>
  C1, as amended. Take an invocation that has passed validation (\<open>max_tries \<ge> 1\<close>) and enters
  the loop, in which the execution of the statement fails in every attempt from 1 to
  \<open>max_tries\<close> with an error the handler classifies as retryable, and no cancellation is
  pending at an interrupt check. Then the loop makes exactly \<open>max_tries\<close> attempts and the
  invocation ends in one way: no row count is returned, the error after the loop is not
  reported, and a caught error is rethrown. For \<^verbatim>\<open>src/src/pg_retry.c\<close> this holds for every
  \<^verbatim>\<open>int\<close> \<open>max_tries\<close>; for \<^verbatim>\<open>src/pg_retry.c\<close>, whose loop runs \<^verbatim>\<open>attempt++\<close> once more after
  the last attempt, for \<open>max_tries < INT_MAX\<close>.
\<close>

theorem exhaustion_takes_max_tries_attempts:
  assumes "1 \<le> max_tries"
    and "all_fail_retryably h retry_sqlstates max_tries"
    and "uninterrupted h max_tries"
  shows "(max_tries \<le> INT_MAX \<longrightarrow>
           int (attempts (retry_loop_B h max_tries base_delay_ms max_delay_ms retry_sqlstates
                  \<lparr>processed_rows = 0, success = False\<rparr> 1)) = max_tries
           \<and> returned (fst (retry_loop_B h max_tries base_delay_ms max_delay_ms retry_sqlstates
                  \<lparr>processed_rows = 0, success = False\<rparr> 1)) = None
           \<and> (\<exists>e. caught h max_tries = Some e
                \<and> fst (retry_loop_B h max_tries base_delay_ms max_delay_ms retry_sqlstates
                         \<lparr>processed_rows = 0, success = False\<rparr> 1) = ReThrowError e))
       \<and> (max_tries < INT_MAX \<longrightarrow>
           int (attempts (retry_loop_A h max_tries base_delay_ms max_delay_ms retry_sqlstates
                  \<lparr>processed_rows = 0, success = False, last_error = None\<rparr> 1)) = max_tries
           \<and> returned (fst (retry_loop_A h max_tries base_delay_ms max_delay_ms retry_sqlstates
                  \<lparr>processed_rows = 0, success = False, last_error = None\<rparr> 1)) = None
           \<and> (\<exists>e. caught h max_tries = Some e
                \<and> fst (retry_loop_A h max_tries base_delay_ms max_delay_ms retry_sqlstates
                         \<lparr>processed_rows = 0, success = False, last_error = None\<rparr> 1)
                     = ReThrowError e))"
proof -
  from all_fail_retryablyD [OF assms(2) assms(1)]
  obtain e where e: "caught h max_tries = Some e" by auto
  show ?thesis
    using exhaustion_B [OF assms(2,3) _ e, of 1 "\<lparr>processed_rows = 0, success = False\<rparr>"]
      exhaustion_A [OF assms(2,3) _ e, of 1 "\<lparr>processed_rows = 0, success = False, last_error = None\<rparr>"]
      assms(1) e
    by simp
qed

theorem exhaustion_takes_max_tries_attempts_witness:
  "(1::int) \<le> 3
   \<and> all_fail_retryably (quiet_host (fails_with ERRCODE_T_R_SERIALIZATION_FAILURE)) default_sqlstates 3
   \<and> uninterrupted (quiet_host (fails_with ERRCODE_T_R_SERIALIZATION_FAILURE)) 3
   \<and> attempts (retry_loop_B (quiet_host (fails_with ERRCODE_T_R_SERIALIZATION_FAILURE)) 3 50 1000
        default_sqlstates \<lparr>processed_rows = 0, success = False\<rparr> 1) = 3
   \<and> attempts (retry_loop_A (quiet_host (fails_with ERRCODE_T_R_SERIALIZATION_FAILURE)) 3 50 1000
        default_sqlstates \<lparr>processed_rows = 0, success = False, last_error = None\<rparr> 1) = 3"
proof -
  have f: "all_fail_retryably (quiet_host (fails_with ERRCODE_T_R_SERIALIZATION_FAILURE)) default_sqlstates 3"
    by code_simp
  have q: "uninterrupted (quiet_host (fails_with ERRCODE_T_R_SERIALIZATION_FAILURE)) 3"
    by code_simp
  have m: "(1::int) \<le> 3" by simp
  show ?thesis
    using exhaustion_takes_max_tries_attempts [OF m f q, of 50 1000] f q
    by (simp add: INT_MAX_def)
qed

text \<open>
  C1 as stated, without the condition on cancellation, fails: with \<open>max_tries = 3\<close>, a
  statement that fails with \<^verbatim>\<open>40001\<close> in every attempt and a cancellation pending after the
  first sleep, \<^verbatim>\<open>CHECK_FOR_INTERRUPTS\<close> raises in the handler and either file is left after
  one attempt.
\<close>

theorem cancelled_before_max_tries_counterexample:
  "all_fail_retryably cancelling_host default_sqlstates 3
   \<and> pg_retry_retry_B cancelling_host shipped (call 3)
     = (host_ERROR \<lparr>sqlerrcode = ERRCODE_QUERY_CANCELED,
                      message = Some ''canceling statement due to user request''\<rparr>,
        [SubXact 1,
         Warning 1 ERRCODE_T_R_SERIALIZATION_FAILURE
           ''pg_retry: attempt 1/3 failed with SQLSTATE 40001: failure 1'',
         Sleep 1 50000])
   \<and> pg_retry_retry_A cancelling_host shipped (call 3)
     = pg_retry_retry_B cancelling_host shipped (call 3)
   \<and> attempts (pg_retry_retry_B cancelling_host shipped (call 3)) = 1"
  by code_simp

text \<open>
  The last attempt allowed in \<^verbatim>\<open>src/src/pg_retry.c\<close>: whatever error reaches the handler,
  from the statement or from the release, is rethrown.
\<close>

lemma last_attempt_B:
  assumes "try_body h m st = (st1, Some e)"
  shows "retry_loop_B h m b d c st m = (ReThrowError e, SubXact m # log_retry c m m e)"
  using retry_loop_B_Leave [OF order_refl loop_body_B_rethrow [OF assms]] by simp

text \<open>
  C2. When every attempt fails in the execution of the statement with a retryable error
  and none is cut short by a cancellation, the outcome is \<^verbatim>\<open>ReThrowError\<close> of the very
  \<^verbatim>\<open>ErrorData\<close> caught in attempt \<open>max_tries\<close>: in \<^verbatim>\<open>src/src/pg_retry.c\<close> for every \<open>max_tries\<close>,
  in \<^verbatim>\<open>src/pg_retry.c\<close> for \<open>max_tries < INT_MAX\<close>.
\<close>

lemma exhaustion_rethrows_last_failure:
  assumes "1 \<le> max_tries"
    and "all_fail_retryably h retry_sqlstates max_tries"
    and "uninterrupted h max_tries"
    and "caught h max_tries = Some e"
  shows "(max_tries \<le> INT_MAX \<longrightarrow>
           fst (retry_loop_B h max_tries base_delay_ms max_delay_ms retry_sqlstates
                  \<lparr>processed_rows = 0, success = False\<rparr> 1) = ReThrowError e)
       \<and> (max_tries < INT_MAX \<longrightarrow>
           fst (retry_loop_A h max_tries base_delay_ms max_delay_ms retry_sqlstates
                  \<lparr>processed_rows = 0, success = False, last_error = None\<rparr> 1) = ReThrowError e)"
  using exhaustion_B [OF assms(2,3) _ assms(4), of 1 "\<lparr>processed_rows = 0, success = False\<rparr>"]
    exhaustion_A [OF assms(2,3) _ assms(4), of 1
      "\<lparr>processed_rows = 0, success = False, last_error = None\<rparr>"]
    assms(1)
  by simp

text \<open>
  C2 fails in \<^verbatim>\<open>src/pg_retry.c\<close> when the error of the last attempt comes from the release of
  the subtransaction. With \<open>max_tries = 1\<close>, a statement that updates 7 rows and a release
  that raises \<^verbatim>\<open>40001\<close>: the handler warns and saves the error, but \<^verbatim>\<open>success\<close> is already
  true, so the loop is left by \<^verbatim>\<open>break\<close> and 7 is returned, the saved error dropped.
  \<^verbatim>\<open>src/src/pg_retry.c\<close> rethrows the error in the handler.
\<close>

theorem release_error_of_last_attempt_dropped:
  "pg_retry_retry_A release_host shipped (call 1)
     = (PG_RETURN_INT32 7,
        [SubXact 1,
         Warning 1 ERRCODE_T_R_SERIALIZATION_FAILURE
           ''pg_retry: attempt 1/1 failed with SQLSTATE 40001: could not serialize access''])
   \<and> pg_retry_retry_B release_host shipped (call 1)
     = (ReThrowError \<lparr>sqlerrcode = ERRCODE_T_R_SERIALIZATION_FAILURE,
                        message = Some ''could not serialize access''\<rparr>,
        [SubXact 1,
         Warning 1 ERRCODE_T_R_SERIALIZATION_FAILURE
           ''pg_retry: attempt 1/1 failed with SQLSTATE 40001: could not serialize access''])"
  by code_simp

text \<open>
  A run that ends well, for comparison: two failures with \<^verbatim>\<open>40001\<close>, then 7 rows updated in
  attempt 3 of 3. Both files return 7 after two warnings and two sleeps.
\<close>

lemma two_retries_then_success:
  "pg_retry_retry_A (quiet_host (fails_twice ERRCODE_T_R_SERIALIZATION_FAILURE)) shipped (call 3)
     = (PG_RETURN_INT32 7,
        [SubXact 1,
         Warning 1 ERRCODE_T_R_SERIALIZATION_FAILURE
           ''pg_retry: attempt 1/3 failed with SQLSTATE 40001: failure 1'',
         Sleep 1 50000,
         SubXact 2,
         Warning 2 ERRCODE_T_R_SERIALIZATION_FAILURE
           ''pg_retry: attempt 2/3 failed with SQLSTATE 40001: failure 2'',
         Sleep 2 100000,
         SubXact 3])"
  "pg_retry_retry_B (quiet_host (fails_twice ERRCODE_T_R_SERIALIZATION_FAILURE)) shipped (call 3)
     = pg_retry_retry_A (quiet_host (fails_twice ERRCODE_T_R_SERIALIZATION_FAILURE)) shipped (call 3)"
  by code_simp+

section \<open>Where the loops sleep\<close>

lemma loop_body_B_sleeps:
  assumes "loop_body_B h m b d c st a = (es, fl)" and "1 \<le> a"
    and "\<And>cur. sleeps_between m cur t"
  shows "sleeps_between m cur (es @ t)"
  using assms
  by (auto simp: loop_body_B_def log_retry_def retry_warning_def backoff_def
      split: prod.splits if_splits option.splits dest: try_body_None)

lemma loop_body_A_sleeps:
  assumes "loop_body_A h m b d c st a = (es, fl)" and "1 \<le> a"
    and "\<And>cur. sleeps_between m cur t"
  shows "sleeps_between m cur (es @ t)"
  using assms
  by (auto simp: loop_body_A_def log_retry_def retry_warning_def backoff_def
      split: prod.splits if_splits option.splits dest: try_body_None)

lemma retry_loop_B_sleeps:
  "1 \<le> attempt \<Longrightarrow> sleeps_between m cur (snd (retry_loop_B h m b d c st attempt))"
proof (induction h m b d c st attempt arbitrary: cur rule: retry_loop_B.induct)
  case (1 h m b d c st attempt)
  show ?case
  proof (cases "attempt \<le> m")
    case False
    then show ?thesis using retry_loop_B_done [OF False] by simp
  next
    case le: True
    obtain es fl where body: "loop_body_B h m b d c st attempt = (es, fl)"
      by (cases "loop_body_B h m b d c st attempt")
    have nil: "sleeps_between m cur es" for cur
      using loop_body_B_sleeps [OF body "1.prems", of "[]"] by simp
    show ?thesis
    proof (cases fl)
      case (Continue st')
      show ?thesis
      proof (cases "attempt = INT_MAX")
        case True
        then show ?thesis
          using retry_loop_B_Overflow [OF le body [unfolded Continue]] nil by simp
      next
        case False
        have "sleeps_between m cur' (snd (retry_loop_B h m b d c st' (attempt + 1)))" for cur'
          using "1.IH" [OF le body [symmetric] Continue False] "1.prems" by simp
        then show ?thesis
          using retry_loop_B_Continue [OF le body [unfolded Continue] False]
            loop_body_B_sleeps [OF body "1.prems"]
          by simp
      qed
    next
      case (Break st')
      then show ?thesis
        using retry_loop_B_Break [OF le body [unfolded Break]] nil by simp
    next
      case (Leave out)
      then show ?thesis
        using retry_loop_B_Leave [OF le body [unfolded Leave]] nil by simp
    qed
  qed
qed

lemma retry_loop_A_sleeps:
  "1 \<le> attempt \<Longrightarrow> sleeps_between m cur (snd (retry_loop_A h m b d c st attempt))"
proof (induction h m b d c st attempt arbitrary: cur rule: retry_loop_A.induct)
  case (1 h m b d c st attempt)
  show ?case
  proof (cases "attempt \<le> m")
    case False
    then show ?thesis using retry_loop_A_done [OF False] by simp
  next
    case le: True
    obtain es fl where body: "loop_body_A h m b d c st attempt = (es, fl)"
      by (cases "loop_body_A h m b d c st attempt")
    have nil: "sleeps_between m cur es" for cur
      using loop_body_A_sleeps [OF body "1.prems", of "[]"] by simp
    show ?thesis
    proof (cases fl)
      case (Continue st')
      show ?thesis
      proof (cases "attempt = INT_MAX")
        case True
        then show ?thesis
          using retry_loop_A_Overflow [OF le body [unfolded Continue]] nil by simp
      next
        case False
        have "sleeps_between m cur' (snd (retry_loop_A h m b d c st' (attempt + 1)))" for cur'
          using "1.IH" [OF le body [symmetric] Continue False] "1.prems" by simp
        then show ?thesis
          using retry_loop_A_Continue [OF le body [unfolded Continue] False]
            loop_body_A_sleeps [OF body "1.prems"]
          by simp
      qed
    next
      case (Break st')
      then show ?thesis
        using retry_loop_A_Break [OF le body [unfolded Break]] nil by simp
    next
      case (Leave out)
      then show ?thesis
        using retry_loop_A_Leave [OF le body [unfolded Leave]] nil by simp
    qed
  qed
qed

lemma loop_body_B_last:
  assumes "loop_body_B h m b d c st m = (es, fl)"
  shows "filter is_attempt es = [SubXact m] \<and> filter is_sleep es = [] \<and> (\<forall>st'. fl \<noteq> Continue st')"
  using assms
  by (auto simp: loop_body_B_def log_retry_def retry_warning_def backoff_def
      split: prod.splits if_splits option.splits dest: try_body_None)

lemma loop_body_A_last:
  assumes "loop_body_A h m b d c st m = (es, fl)"
  shows "filter is_attempt es = [SubXact m] \<and> filter is_sleep es = []"
  using assms
  by (auto simp: loop_body_A_def log_retry_def retry_warning_def backoff_def
      split: prod.splits if_splits option.splits dest: try_body_None)

lemma retry_loop_B_last:
  "attempts (retry_loop_B h m b d c st m) = 1 \<and> sleeps (retry_loop_B h m b d c st m) = []"
proof -
  obtain es fl where body: "loop_body_B h m b d c st m = (es, fl)"
    by (cases "loop_body_B h m b d c st m")
  note last = loop_body_B_last [OF body]
  show ?thesis
  proof (cases fl)
    case (Continue st')
    with last show ?thesis by simp
  next
    case (Break st')
    then show ?thesis
      using retry_loop_B_Break [OF order_refl body [unfolded Break]] last
      by (simp add: attempts_def sleeps_def)
  next
    case (Leave out)
    then show ?thesis
      using retry_loop_B_Leave [OF order_refl body [unfolded Leave]] last
      by (simp add: attempts_def sleeps_def)
  qed
qed

lemma retry_loop_A_last:
  assumes "m < INT_MAX"
  shows "attempts (retry_loop_A h m b d c st m) = 1 \<and> sleeps (retry_loop_A h m b d c st m) = []"
proof -
  obtain es fl where body: "loop_body_A h m b d c st m = (es, fl)"
    by (cases "loop_body_A h m b d c st m")
  note last = loop_body_A_last [OF body]
  show ?thesis
  proof (cases fl)
    case (Continue st')
    have "retry_loop_A h m b d c st m = emit es (retry_loop_A h m b d c st' (m + 1))"
      using retry_loop_A_Continue [OF order_refl body [unfolded Continue]] assms by simp
    moreover have "retry_loop_A h m b d c st' (m + 1) = (after_loop_A st', [])"
      using retry_loop_A_done [of "m + 1" m] by simp
    ultimately show ?thesis
      using last by (simp add: attempts_def sleeps_def)
  next
    case (Break st')
    then show ?thesis
      using retry_loop_A_Break [OF order_refl body [unfolded Break]] last
      by (simp add: attempts_def sleeps_def)
  next
    case (Leave out)
    then show ?thesis
      using retry_loop_A_Leave [OF order_refl body [unfolded Leave]] last
      by (simp add: attempts_def sleeps_def)
  qed
qed

text \<open>
  C7. Whatever the host does, in the trace of either loop every sleep (the call of
  \<^verbatim>\<open>calculate_delay\<close> and the \<^verbatim>\<open>pg_usleep\<close> that follows it) comes after the attempt it is
  computed for, and that attempt is not attempt \<open>max_tries\<close>: none precedes the first
  attempt, none follows the last one allowed. With \<open>max_tries = 1\<close> the trace holds exactly
  one attempt and no sleep.
\<close>

theorem sleeps_only_between_attempts:
  assumes "1 \<le> max_tries"
  shows "sleeps_between max_tries 0
           (snd (retry_loop_A h max_tries base_delay_ms max_delay_ms retry_sqlstates
                   \<lparr>processed_rows = 0, success = False, last_error = None\<rparr> 1))
       \<and> sleeps_between max_tries 0
           (snd (retry_loop_B h max_tries base_delay_ms max_delay_ms retry_sqlstates
                   \<lparr>processed_rows = 0, success = False\<rparr> 1))
       \<and> (max_tries = 1 \<longrightarrow>
            attempts (retry_loop_A h max_tries base_delay_ms max_delay_ms retry_sqlstates
                        \<lparr>processed_rows = 0, success = False, last_error = None\<rparr> 1) = 1
            \<and> sleeps (retry_loop_A h max_tries base_delay_ms max_delay_ms retry_sqlstates
                        \<lparr>processed_rows = 0, success = False, last_error = None\<rparr> 1) = []
            \<and> attempts (retry_loop_B h max_tries base_delay_ms max_delay_ms retry_sqlstates
                        \<lparr>processed_rows = 0, success = False\<rparr> 1) = 1
            \<and> sleeps (retry_loop_B h max_tries base_delay_ms max_delay_ms retry_sqlstates
                        \<lparr>processed_rows = 0, success = False\<rparr> 1) = [])"
  using retry_loop_A_sleeps [of 1 max_tries 0] retry_loop_B_sleeps [of 1 max_tries 0]
    retry_loop_A_last [of 1] retry_loop_B_last [of _ 1]
  by (simp add: INT_MAX_def)

theorem sleeps_only_between_attempts_witness:
  "(1::int) \<le> 1
   \<and> attempts (retry_loop_B (quiet_host (fails_with ERRCODE_T_R_SERIALIZATION_FAILURE)) 1 50 1000
        default_sqlstates \<lparr>processed_rows = 0, success = False\<rparr> 1) = 1
   \<and> sleeps (retry_loop_B (quiet_host (fails_with ERRCODE_T_R_SERIALIZATION_FAILURE)) 1 50 1000
        default_sqlstates \<lparr>processed_rows = 0, success = False\<rparr> 1) = []
   \<and> attempts (retry_loop_A (quiet_host (fails_with ERRCODE_T_R_SERIALIZATION_FAILURE)) 1 50 1000
        default_sqlstates \<lparr>processed_rows = 0, success = False, last_error = None\<rparr> 1) = 1
   \<and> sleeps (retry_loop_A (quiet_host (fails_with ERRCODE_T_R_SERIALIZATION_FAILURE)) 1 50 1000
        default_sqlstates \<lparr>processed_rows = 0, success = False, last_error = None\<rparr> 1) = []"
proof -
  have m: "(1::int) \<le> 1" by simp
  show ?thesis
    using sleeps_only_between_attempts [OF m] by simp
qed

section \<open>Two attempts, both failing with 40001\<close>

lemma unpack_sql_state_0: "unpack_sql_state 0 = ''00000''"
  by code_simp

lemma should_retry_40001:
  assumes "unpack_sql_state (sqlerrcode e) = ''40001''" and "Some ''40001'' \<in> set c"
  shows "should_retry c e"
proof -
  have "sqlerrcode e \<noteq> 0"
    using assms(1) unpack_sql_state_0 by auto
  then show ?thesis
    using assms by (simp add: should_retry_def is_retryable_sqlstate_mem)
qed

text \<open>
  C3, as the source has it. With \<open>max_tries = 2\<close>, two attempts that fail with errors of code
  \<^verbatim>\<open>40001\<close>, that code in the array, and no cancellation pending after the first sleep: both
  files warn for attempt 1, sleep once, warn for attempt 2 as well (the warning is reported
  as soon as the error is classified, before \<^verbatim>\<open>attempt == max_tries\<close> is looked at), and
  rethrow the error of attempt 2, code and message unchanged. Two warnings, not one.
\<close>

theorem scenario_C_warns_twice:
  assumes "caught h 1 = Some e1" and "caught h 2 = Some e2"
    and "unpack_sql_state (sqlerrcode e1) = ''40001''"
    and "unpack_sql_state (sqlerrcode e2) = ''40001''"
    and "Some ''40001'' \<in> set retry_sqlstates"
    and "CHECK_FOR_INTERRUPTS h 1 = None"
  shows "retry_loop_B h 2 base_delay_ms max_delay_ms retry_sqlstates
           \<lparr>processed_rows = 0, success = False\<rparr> 1
         = (ReThrowError e2,
            [SubXact 1, retry_warning 1 2 e1, backoff h 1 base_delay_ms max_delay_ms,
             SubXact 2, retry_warning 2 2 e2])
       \<and> retry_loop_A h 2 base_delay_ms max_delay_ms retry_sqlstates
           \<lparr>processed_rows = 0, success = False, last_error = None\<rparr> 1
         = (ReThrowError e2,
            [SubXact 1, retry_warning 1 2 e1, backoff h 1 base_delay_ms max_delay_ms,
             SubXact 2, retry_warning 2 2 e2])"
proof -
  note t1 = caught_SomeD [OF assms(1)] and t2 = caught_SomeD [OF assms(2)]
  note r1 = should_retry_40001 [OF assms(3,5)] and r2 = should_retry_40001 [OF assms(4,5)]
  let ?b = "\<lparr>processed_rows = 0, success = False\<rparr>"
  let ?a = "\<lparr>processed_rows = 0, success = False, last_error = None\<rparr>"
  have b1: "loop_body_B h 2 base_delay_ms max_delay_ms retry_sqlstates ?b 1 =
      ([SubXact 1, retry_warning 1 2 e1, backoff h 1 base_delay_ms max_delay_ms], Continue ?b)"
    using loop_body_B_retry [OF t1 r1] assms(6) by simp
  have b2: "loop_body_B h 2 base_delay_ms max_delay_ms retry_sqlstates ?b 2 =
      ([SubXact 2, retry_warning 2 2 e2], Leave (ReThrowError e2))"
    using loop_body_B_rethrow [OF t2] r2 by (simp add: log_retry_def)
  have B: "retry_loop_B h 2 base_delay_ms max_delay_ms retry_sqlstates ?b 1 =
      emit [SubXact 1, retry_warning 1 2 e1, backoff h 1 base_delay_ms max_delay_ms]
        (ReThrowError e2, [SubXact 2, retry_warning 2 2 e2])"
    using retry_loop_B_Continue [OF _ b1] retry_loop_B_Leave [OF _ b2]
    by (simp add: INT_MAX_def)
  have a1: "loop_body_A h 2 base_delay_ms max_delay_ms retry_sqlstates ?a 1 =
      ([SubXact 1, retry_warning 1 2 e1, backoff h 1 base_delay_ms max_delay_ms], Continue ?a)"
    using loop_body_A_retry [OF t1 r1] assms(6) by simp
  have a2: "loop_body_A h 2 base_delay_ms max_delay_ms retry_sqlstates ?a 2 =
      ([SubXact 2, retry_warning 2 2 e2], Continue (?a\<lparr>last_error := Some e2\<rparr>))"
    using loop_body_A_save [OF t2] r2 by (simp add: log_retry_def)
  have a3: "retry_loop_A h 2 base_delay_ms max_delay_ms retry_sqlstates
      (?a\<lparr>last_error := Some e2\<rparr>) 3 = (ReThrowError e2, [])"
    using retry_loop_A_done [of 3 2] by (simp add: after_loop_A_def)
  have A: "retry_loop_A h 2 base_delay_ms max_delay_ms retry_sqlstates ?a 1 =
      emit [SubXact 1, retry_warning 1 2 e1, backoff h 1 base_delay_ms max_delay_ms]
        (emit [SubXact 2, retry_warning 2 2 e2] (ReThrowError e2, []))"
    using retry_loop_A_Continue [OF _ a1] retry_loop_A_Continue [OF _ a2] a3
    by (simp add: INT_MAX_def)
  show ?thesis
    unfolding A B by (simp add: emit_def)
qed

theorem scenario_C_warns_twice_witness:
  "caught (quiet_host (fails_with ERRCODE_T_R_SERIALIZATION_FAILURE)) 1
     = Some \<lparr>sqlerrcode = ERRCODE_T_R_SERIALIZATION_FAILURE, message = Some ''failure 1''\<rparr>
   \<and> caught (quiet_host (fails_with ERRCODE_T_R_SERIALIZATION_FAILURE)) 2
     = Some \<lparr>sqlerrcode = ERRCODE_T_R_SERIALIZATION_FAILURE, message = Some ''failure 2''\<rparr>
   \<and> unpack_sql_state ERRCODE_T_R_SERIALIZATION_FAILURE = ''40001''
   \<and> Some ''40001'' \<in> set default_sqlstates
   \<and> CHECK_FOR_INTERRUPTS (quiet_host (fails_with ERRCODE_T_R_SERIALIZATION_FAILURE)) 1 = None
   \<and> warnings (retry_loop_B (quiet_host (fails_with ERRCODE_T_R_SERIALIZATION_FAILURE)) 2 50 1000
        default_sqlstates \<lparr>processed_rows = 0, success = False\<rparr> 1)
     = [Warning 1 ERRCODE_T_R_SERIALIZATION_FAILURE
          ''pg_retry: attempt 1/2 failed with SQLSTATE 40001: failure 1'',
        Warning 2 ERRCODE_T_R_SERIALIZATION_FAILURE
          ''pg_retry: attempt 2/2 failed with SQLSTATE 40001: failure 2'']"
proof -
  let ?h = "quiet_host (fails_with ERRCODE_T_R_SERIALIZATION_FAILURE)"
  let ?e1 = "\<lparr>sqlerrcode = ERRCODE_T_R_SERIALIZATION_FAILURE, message = Some ''failure 1''\<rparr>"
  let ?e2 = "\<lparr>sqlerrcode = ERRCODE_T_R_SERIALIZATION_FAILURE, message = Some ''failure 2''\<rparr>"
  have c1: "caught ?h 1 = Some ?e1" by code_simp
  have c2: "caught ?h 2 = Some ?e2" by code_simp
  have u: "unpack_sql_state ERRCODE_T_R_SERIALIZATION_FAILURE = ''40001''" by code_simp
  have u1: "unpack_sql_state (sqlerrcode ?e1) = ''40001''" using u by simp
  have u2: "unpack_sql_state (sqlerrcode ?e2) = ''40001''" using u by simp
  have d: "Some ''40001'' \<in> set default_sqlstates" by code_simp
  have i: "CHECK_FOR_INTERRUPTS ?h 1 = None" by code_simp
  have w1: "retry_warning 1 2 ?e1 = Warning 1 ERRCODE_T_R_SERIALIZATION_FAILURE
          ''pg_retry: attempt 1/2 failed with SQLSTATE 40001: failure 1''" by code_simp
  have w2: "retry_warning 2 2 ?e2 = Warning 2 ERRCODE_T_R_SERIALIZATION_FAILURE
          ''pg_retry: attempt 2/2 failed with SQLSTATE 40001: failure 2''" by code_simp
  show ?thesis
    using scenario_C_warns_twice [OF c1 c2 u1 u2 d i, of 50 1000] c1 c2 u d i
    by (simp add: warnings_def w1 w2 backoff_def)
qed

text \<open>
  C3 as stated, with exactly one warning, fails on the shipped configuration with
  \<open>max_tries = 2\<close> when both attempts fail with \<^verbatim>\<open>40001\<close>: each file reports two.
\<close>

theorem scenario_C_one_warning_counterexample:
  "length (warnings (pg_retry_retry_B (quiet_host (fails_with ERRCODE_T_R_SERIALIZATION_FAILURE))
             shipped (call 2))) = 2
   \<and> length (warnings (pg_retry_retry_A (quiet_host (fails_with ERRCODE_T_R_SERIALIZATION_FAILURE))
             shipped (call 2))) = 2"
  by code_simp

section \<open>Failures that are not retryable\<close>

lemma non_retryable_B:
  assumes "caught h attempt = Some e" and "\<not> should_retry c e" and "attempt \<le> m"
  shows "retry_loop_B h m b d c st attempt = (ReThrowError e, [SubXact attempt])"
  using retry_loop_B_Leave [OF assms(3) loop_body_B_rethrow [OF caught_SomeD [OF assms(1)]]] assms(2)
  by (simp add: log_retry_def)

text \<open>
  C4. With \<open>max_tries = 5\<close> and a statement that fails with \<^verbatim>\<open>22012\<close>, which is not in the
  shipped list: \<^verbatim>\<open>src/src/pg_retry.c\<close> rethrows the error of attempt 1 after that one
  attempt. \<^verbatim>\<open>src/pg_retry.c\<close> saves the error in \<^verbatim>\<open>last_error\<close> "for rethrow", but nothing
  leaves the loop: it makes all five attempts and rethrows the error of attempt 5.
\<close>

theorem non_retryable_failure_not_propagated_at_once:
  "pg_retry_retry_A (quiet_host (fails_with ERRCODE_DIVISION_BY_ZERO)) shipped (call 5)
     = (ReThrowError \<lparr>sqlerrcode = ERRCODE_DIVISION_BY_ZERO, message = Some ''failure 5''\<rparr>,
        [SubXact 1, SubXact 2, SubXact 3, SubXact 4, SubXact 5])
   \<and> pg_retry_retry_B (quiet_host (fails_with ERRCODE_DIVISION_BY_ZERO)) shipped (call 5)
     = (ReThrowError \<lparr>sqlerrcode = ERRCODE_DIVISION_BY_ZERO, message = Some ''failure 1''\<rparr>,
        [SubXact 1])"
  by code_simp



section \<open>Validation\<close>

text \<open>
  An invocation with a statement, valid parameters, a text that \<^verbatim>\<open>validate_sql\<close> accepts and
  a successful \<^verbatim>\<open>SPI_connect_ext\<close> is the loop, started at attempt 1 with \<open>max_tries \<ge> 1\<close>:
  the statements about the loops are statements about every invocation that passes
  validation.
\<close>

lemmas of_defs = max_tries_of_def base_delay_ms_of_def max_delay_ms_of_def

lemma pg_retry_retry_A_Some:
  assumes "arg0 fc = Some sql"
  shows "pg_retry_retry_A h g fc =
     (if max_tries_of g fc < 1 then
        (ereport_ERROR \<lparr>sqlerrcode = ERRCODE_INVALID_PARAMETER_VALUE,
           message = Some ''pg_retry: max_tries must be >= 1''\<rparr>, [])
      else if base_delay_ms_of g fc < 0 \<or> max_delay_ms_of g fc < 0 then
        (ereport_ERROR \<lparr>sqlerrcode = ERRCODE_INVALID_PARAMETER_VALUE,
           message = Some ''pg_retry: delay parameters must be >= 0''\<rparr>, [])
      else if base_delay_ms_of g fc > max_delay_ms_of g fc then
        (ereport_ERROR \<lparr>sqlerrcode = ERRCODE_INVALID_PARAMETER_VALUE,
           message = Some ''pg_retry: base_delay_ms cannot be greater than max_delay_ms''\<rparr>, [])
      else
        (case validate_sql h sql of
           Inl out \<Rightarrow> (out, [])
         | Inr parsed_tree \<Rightarrow>
             if SPI_connect_ext h \<noteq> SPI_OK_CONNECT then
               (ereport_ERROR \<lparr>sqlerrcode = ERRCODE_CONNECTION_FAILURE,
                  message = Some ''pg_retry: SPI_connect failed''\<rparr>, [])
             else
               retry_loop_A h (max_tries_of g fc) (base_delay_ms_of g fc) (max_delay_ms_of g fc)
                 (case arg4 fc of
                    None \<Rightarrow> text_to_array h (pg_retry_default_sqlstates_str g)
                  | Some a \<Rightarrow> a)
                 \<lparr>processed_rows = 0, success = False, last_error = None\<rparr> 1))"
  unfolding pg_retry_retry_A_def of_defs Let_def assms by simp

lemma pg_retry_retry_B_Some:
  assumes "arg0 fc = Some sql"
  shows "pg_retry_retry_B h g fc =
     (if max_tries_of g fc < 1 then
        (ereport_ERROR \<lparr>sqlerrcode = ERRCODE_INVALID_PARAMETER_VALUE,
           message = Some ''pg_retry: max_tries must be >= 1''\<rparr>, [])
      else if base_delay_ms_of g fc < 0 \<or> max_delay_ms_of g fc < 0 then
        (ereport_ERROR \<lparr>sqlerrcode = ERRCODE_INVALID_PARAMETER_VALUE,
           message = Some ''pg_retry: delay parameters must be >= 0''\<rparr>, [])
      else if base_delay_ms_of g fc > max_delay_ms_of g fc then
        (ereport_ERROR \<lparr>sqlerrcode = ERRCODE_INVALID_PARAMETER_VALUE,
           message = Some ''pg_retry: base_delay_ms cannot be greater than max_delay_ms''\<rparr>, [])
      else
        (case validate_sql h sql of
           Inl out \<Rightarrow> (out, [])
         | Inr parsed_tree \<Rightarrow>
             if SPI_connect_ext h \<noteq> SPI_OK_CONNECT then
               (ereport_ERROR \<lparr>sqlerrcode = ERRCODE_CONNECTION_FAILURE,
                  message = Some ''pg_retry: SPI_connect failed''\<rparr>, [])
             else
               retry_loop_B h (max_tries_of g fc) (base_delay_ms_of g fc) (max_delay_ms_of g fc)
                 (case arg4 fc of
                    None \<Rightarrow> build_sqlstate_array (pg_retry_default_sqlstates_str g)
                  | Some a \<Rightarrow> a)
                 \<lparr>processed_rows = 0, success = False\<rparr> 1))"
  unfolding pg_retry_retry_B_def of_defs Let_def assms by simp

lemma passes_validation:
  assumes "arg0 fc = Some sql" and "\<not> invalid_parameters g fc"
    and "validate_sql h sql = Inr parsed_tree" and "SPI_connect_ext h = SPI_OK_CONNECT"
  shows "1 \<le> max_tries_of g fc"
    and "pg_retry_retry_A h g fc =
           retry_loop_A h (max_tries_of g fc) (base_delay_ms_of g fc) (max_delay_ms_of g fc)
             (case arg4 fc of
                None \<Rightarrow> text_to_array h (pg_retry_default_sqlstates_str g)
              | Some a \<Rightarrow> a)
             \<lparr>processed_rows = 0, success = False, last_error = None\<rparr> 1"
    and "pg_retry_retry_B h g fc =
           retry_loop_B h (max_tries_of g fc) (base_delay_ms_of g fc) (max_delay_ms_of g fc)
             (case arg4 fc of
                None \<Rightarrow> build_sqlstate_array (pg_retry_default_sqlstates_str g)
              | Some a \<Rightarrow> a)
             \<lparr>processed_rows = 0, success = False\<rparr> 1"
  using assms(2-4)
  unfolding pg_retry_retry_A_Some [OF assms(1)] pg_retry_retry_B_Some [OF assms(1)]
    invalid_parameters_def
  by auto

lemma reject_null:
  assumes "arg0 fc = None"
  shows "pg_retry_retry_A h g fc =
           (ereport_ERROR \<lparr>sqlerrcode = ERRCODE_NULL_VALUE_NOT_ALLOWED,
              message = Some ''pg_retry: sql parameter cannot be null''\<rparr>, [])"
    and "pg_retry_retry_B h g fc =
           (ereport_ERROR \<lparr>sqlerrcode = ERRCODE_NULL_VALUE_NOT_ALLOWED,
              message = Some ''pg_retry: sql parameter cannot be null''\<rparr>, [])"
  using assms by (simp_all add: pg_retry_retry_A_def pg_retry_retry_B_def)

lemma reject_parameters:
  assumes "arg0 fc = Some sql" and "invalid_parameters g fc"
  shows "snd (pg_retry_retry_A h g fc) = []
         \<and> (\<exists>m. fst (pg_retry_retry_A h g fc)
                   = ereport_ERROR \<lparr>sqlerrcode = ERRCODE_INVALID_PARAMETER_VALUE, message = m\<rparr>)"
    and "snd (pg_retry_retry_B h g fc) = []
         \<and> (\<exists>m. fst (pg_retry_retry_B h g fc)
                   = ereport_ERROR \<lparr>sqlerrcode = ERRCODE_INVALID_PARAMETER_VALUE, message = m\<rparr>)"
  using assms(2)
  unfolding pg_retry_retry_A_Some [OF assms(1)] pg_retry_retry_B_Some [OF assms(1)]
    invalid_parameters_def
  by auto

lemma validate_sql_count:
  "pg_parse_query h sql = Inr tree \<Longrightarrow> length tree \<noteq> 1 \<Longrightarrow>
   validate_sql h sql = Inl (ereport_ERROR \<lparr>sqlerrcode = ERRCODE_SYNTAX_ERROR,
             message = Some ''pg_retry: SQL must contain exactly one statement''\<rparr>)"
  by (simp add: validate_sql_def is_single_statement_def)

lemma validate_sql_transaction:
  "pg_parse_query h sql = Inr tree \<Longrightarrow> length tree = 1 \<Longrightarrow>
   stmt (hd tree) = T_TransactionStmt \<Longrightarrow>
   validate_sql h sql = Inl (ereport_ERROR \<lparr>sqlerrcode = ERRCODE_FEATURE_NOT_SUPPORTED,
             message = Some ''pg_retry: transaction control statements are not allowed''\<rparr>)"
  by (auto simp add: validate_sql_def is_single_statement_def contains_transaction_control_def)

lemma reject_statement:
  assumes "arg0 fc = Some sql" and "\<not> invalid_parameters g fc"
    and "validate_sql h sql = Inl out"
  shows "pg_retry_retry_A h g fc = (out, [])" and "pg_retry_retry_B h g fc = (out, [])"
  using assms(2,3)
  unfolding pg_retry_retry_A_Some [OF assms(1)] pg_retry_retry_B_Some [OF assms(1)]
    invalid_parameters_def
  by auto

text \<open>
  C5. Let \<open>r\<close> be the run of either file. A null statement, invalid parameters (after the
  defaults are filled in), a text that parses to other than one statement, and a single
  transaction-control statement each end the run with the \<^verbatim>\<open>ereport(ERROR, ...)\<close> of that
  check and an empty trace: no attempt, no warning, no sleep, for every \<open>max_tries\<close>. The
  checks run in the order of the source (null, parameters, statement), so each case is
  stated for an invocation that passes the earlier checks; the last conjunct says that a
  statement of the wrong shape is rejected with an empty trace whatever the parameters are.
\<close>

theorem rejected_before_any_attempt:
  assumes r: "r = pg_retry_retry_A h g fc \<or> r = pg_retry_retry_B h g fc"
  shows "(arg0 fc = None \<longrightarrow>
            r = (ereport_ERROR \<lparr>sqlerrcode = ERRCODE_NULL_VALUE_NOT_ALLOWED,
                   message = Some ''pg_retry: sql parameter cannot be null''\<rparr>, []))
       \<and> (arg0 fc = Some sql \<longrightarrow> invalid_parameters g fc \<longrightarrow>
            snd r = []
            \<and> (\<exists>m. fst r = ereport_ERROR \<lparr>sqlerrcode = ERRCODE_INVALID_PARAMETER_VALUE,
                                message = m\<rparr>))
       \<and> (arg0 fc = Some sql \<longrightarrow> \<not> invalid_parameters g fc \<longrightarrow>
            pg_parse_query h sql = Inr tree \<longrightarrow> length tree \<noteq> 1 \<longrightarrow>
            r = (ereport_ERROR \<lparr>sqlerrcode = ERRCODE_SYNTAX_ERROR,
                   message = Some ''pg_retry: SQL must contain exactly one statement''\<rparr>, []))
       \<and> (arg0 fc = Some sql \<longrightarrow> \<not> invalid_parameters g fc \<longrightarrow>
            pg_parse_query h sql = Inr tree \<longrightarrow> length tree = 1 \<longrightarrow>
            stmt (hd tree) = T_TransactionStmt \<longrightarrow>
            r = (ereport_ERROR \<lparr>sqlerrcode = ERRCODE_FEATURE_NOT_SUPPORTED,
                   message = Some ''pg_retry: transaction control statements are not allowed''\<rparr>,
                 []))
       \<and> (arg0 fc = Some sql \<longrightarrow> pg_parse_query h sql = Inr tree \<longrightarrow>
            length tree \<noteq> 1 \<or> stmt (hd tree) = T_TransactionStmt \<longrightarrow>
            snd r = [] \<and> (\<exists>e. fst r = ereport_ERROR e))"
proof (intro conjI impI)
  assume a: "arg0 fc = None"
  show "r = (ereport_ERROR \<lparr>sqlerrcode = ERRCODE_NULL_VALUE_NOT_ALLOWED,
                   message = Some ''pg_retry: sql parameter cannot be null''\<rparr>, [])"
    using r reject_null [OF a] by auto
next
  assume a: "arg0 fc = Some sql" and p: "invalid_parameters g fc"
  show "snd r = []"
    using r reject_parameters [OF a p] by auto
next
  assume a: "arg0 fc = Some sql" and p: "invalid_parameters g fc"
  show "\<exists>m. fst r = ereport_ERROR \<lparr>sqlerrcode = ERRCODE_INVALID_PARAMETER_VALUE,
                                message = m\<rparr>"
    using r reject_parameters [OF a p] by auto
next
  assume a: "arg0 fc = Some sql" and p: "\<not> invalid_parameters g fc"
    and q: "pg_parse_query h sql = Inr tree" "length tree \<noteq> 1"
  show "r = (ereport_ERROR \<lparr>sqlerrcode = ERRCODE_SYNTAX_ERROR,
                   message = Some ''pg_retry: SQL must contain exactly one statement''\<rparr>, [])"
    using r reject_statement [OF a p validate_sql_count [OF q]] by auto
next
  assume a: "arg0 fc = Some sql" and p: "\<not> invalid_parameters g fc"
    and q: "pg_parse_query h sql = Inr tree" "length tree = 1"
      "stmt (hd tree) = T_TransactionStmt"
  show "r = (ereport_ERROR \<lparr>sqlerrcode = ERRCODE_FEATURE_NOT_SUPPORTED,
                   message = Some ''pg_retry: transaction control statements are not allowed''\<rparr>,
                 [])"
    using r reject_statement [OF a p validate_sql_transaction [OF q]] by auto
next
  assume a: "arg0 fc = Some sql" and q: "pg_parse_query h sql = Inr tree"
    and v: "length tree \<noteq> 1 \<or> stmt (hd tree) = T_TransactionStmt"
  obtain out where out: "validate_sql h sql = Inl (ereport_ERROR out)"
    using validate_sql_count [OF q] validate_sql_transaction [OF q] v
    by (cases "length tree = 1") auto
  show "snd r = []"
  proof (cases "invalid_parameters g fc")
    case True
    then show ?thesis using r reject_parameters [OF a True] by auto
  next
    case False
    then show ?thesis using r reject_statement [OF a False out] by auto
  qed
next
  assume a: "arg0 fc = Some sql" and q: "pg_parse_query h sql = Inr tree"
    and v: "length tree \<noteq> 1 \<or> stmt (hd tree) = T_TransactionStmt"
  obtain out where out: "validate_sql h sql = Inl (ereport_ERROR out)"
    using validate_sql_count [OF q] validate_sql_transaction [OF q] v
    by (cases "length tree = 1") auto
  show "\<exists>e. fst r = ereport_ERROR e"
  proof (cases "invalid_parameters g fc")
    case True
    then show ?thesis using r reject_parameters [OF a True] by auto
  next
    case False
    then show ?thesis using r reject_statement [OF a False out] by auto
  qed
qed

theorem rejected_before_any_attempt_witness:
  "arg0 (call 1000000) = Some ''UPDATE t SET x=1''
   \<and> \<not> invalid_parameters shipped (call 1000000)
   \<and> pg_parse_query commit_host ''UPDATE t SET x=1'' = Inr [\<lparr>stmt = T_TransactionStmt\<rparr>]
   \<and> pg_retry_retry_A commit_host shipped (call 1000000) =
     (ereport_ERROR \<lparr>sqlerrcode = ERRCODE_FEATURE_NOT_SUPPORTED,
        message = Some ''pg_retry: transaction control statements are not allowed''\<rparr>, [])
   \<and> pg_retry_retry_B commit_host shipped (call 1000000) =
     (ereport_ERROR \<lparr>sqlerrcode = ERRCODE_FEATURE_NOT_SUPPORTED,
        message = Some ''pg_retry: transaction control statements are not allowed''\<rparr>, [])"
proof -
  have a: "arg0 (call 1000000) = Some ''UPDATE t SET x=1''" by code_simp
  have p: "\<not> invalid_parameters shipped (call 1000000)" by code_simp
  have q: "pg_parse_query commit_host ''UPDATE t SET x=1'' = Inr [\<lparr>stmt = T_TransactionStmt\<rparr>]"
    by code_simp
  show ?thesis
    using rejected_before_any_attempt
      [of "pg_retry_retry_A commit_host shipped (call 1000000)" commit_host shipped
        "call 1000000" "''UPDATE t SET x=1''" "[\<lparr>stmt = T_TransactionStmt\<rparr>]"]
      rejected_before_any_attempt
      [of "pg_retry_retry_B commit_host shipped (call 1000000)" commit_host shipped
        "call 1000000" "''UPDATE t SET x=1''" "[\<lparr>stmt = T_TransactionStmt\<rparr>]"]
      a p q
    by simp
qed

section \<open>Backoff\<close>

text \<open>
  The exponent found by \<open>ilog2\<close> brackets its argument, and \<open>nearest x\<close> is a multiple of
  \<open>quantum x\<close>.
\<close>

declare log2_up.simps [simp del] log2_down.simps [simp del]

lemma log2_up_bounds:
  "0 < q \<Longrightarrow> q \<le> p \<Longrightarrow>
     0 \<le> log2_up p q \<and> 2 powi log2_up p q * of_int q \<le> (of_int p :: rat)
     \<and> (of_int p :: rat) < 2 powi (log2_up p q + 1) * of_int q"
proof (induction p q rule: log2_up.induct)
  case (1 p q)
  show ?case
  proof (cases "p < 2 * q")
    case True
    then have u: "log2_up p q = 0" by (subst log2_up.simps) simp
    have "(of_int q :: rat) \<le> of_int p" using 1(3) by (simp only: of_int_le_iff)
    moreover have "(of_int p :: rat) < of_int (2 * q)" using True by (simp only: of_int_less_iff)
    ultimately show ?thesis by (simp add: u)
  next
    case False
    then have n: "\<not> (q \<le> 0 \<or> p < 2 * q)" using 1(2) by simp
    then have u: "log2_up p q = 1 + log2_up p (2 * q)" by (subst log2_up.simps) simp
    have "0 < 2 * q" "2 * q \<le> p" using False 1(2) by simp_all
    from 1(1) [OF n this]
    have ih: "0 \<le> log2_up p (2 * q)"
      "2 powi log2_up p (2 * q) * of_int (2 * q) \<le> (of_int p :: rat)"
      "(of_int p :: rat) < 2 powi (log2_up p (2 * q) + 1) * of_int (2 * q)" by simp_all
    have a: "(2::rat) powi (1 + log2_up p (2 * q)) = 2 * 2 powi log2_up p (2 * q)"
      by (simp add: power_int_add)
    have b: "(2::rat) powi (1 + log2_up p (2 * q) + 1) = 2 * 2 powi (log2_up p (2 * q) + 1)"
      by (simp add: power_int_add)
    show ?thesis unfolding u a b using ih by (simp add: mult.assoc mult.left_commute)
  qed
qed

lemma log2_down_bounds:
  "0 < p \<Longrightarrow> p < q \<Longrightarrow>
     log2_down p q < 0 \<and> 2 powi log2_down p q * of_int q \<le> (of_int p :: rat)
     \<and> (of_int p :: rat) < 2 powi (log2_down p q + 1) * of_int q"
proof (induction p q rule: log2_down.induct)
  case (1 p q)
  have n: "\<not> (p \<le> 0 \<or> q \<le> p)" using 1(2,3) by simp
  then have u: "log2_down p q = log2_down (2 * p) q - 1" by (subst log2_down.simps) simp
  show ?case
  proof (cases "q \<le> 2 * p")
    case True
    then have "log2_down (2 * p) q = 0" by (subst log2_down.simps) simp
    then have v: "log2_down p q = - 1" using u by simp
    have "(of_int q :: rat) \<le> of_int (2 * p)" using True by (simp only: of_int_le_iff)
    moreover have "(of_int p :: rat) < of_int q" using 1(3) by (simp only: of_int_less_iff)
    ultimately show ?thesis by (simp add: v power_int_minus)
  next
    case False
    have "0 < 2 * p" "2 * p < q" using False 1(2) by simp_all
    from 1(1) [OF n this]
    have ih: "log2_down (2 * p) q < 0"
      "2 powi log2_down (2 * p) q * of_int q \<le> (of_int (2 * p) :: rat)"
      "(of_int (2 * p) :: rat) < 2 powi (log2_down (2 * p) q + 1) * of_int q" by simp_all
    have a: "(2::rat) powi log2_down (2 * p) q = 2 * 2 powi (log2_down (2 * p) q - 1)"
      by (simp add: power_int_diff)
    have b: "(2::rat) powi (log2_down (2 * p) q + 1) = 2 * 2 powi (log2_down (2 * p) q - 1 + 1)"
      by (simp add: power_int_add)
    show ?thesis unfolding u using ih unfolding a b by (simp add: mult.assoc)
  qed
qed

lemma ilog2_bounds:
  assumes "0 < x"
  shows "2 powi ilog2 x \<le> x" and "x < 2 powi (ilog2 x + 1)"
proof -
  obtain p q where pq: "quotient_of x = (p, q)" by (cases "quotient_of x")
  have q: "0 < q" using pq by (rule quotient_of_denom_pos)
  have x: "x = of_int p / of_int q" using pq by (rule quotient_of_div)
  have p: "0 < p" using assms q by (simp add: x zero_less_divide_iff)
  have e: "ilog2 x = (if q \<le> p then log2_up p q else log2_down p q)"
    by (simp add: ilog2_def pq)
  have "2 powi ilog2 x * of_int q \<le> (of_int p :: rat)
        \<and> (of_int p :: rat) < 2 powi (ilog2 x + 1) * of_int q"
    using log2_up_bounds [OF q, of p] log2_down_bounds [OF p, of q]
    by (cases "q \<le> p") (simp_all add: e)
  then show "2 powi ilog2 x \<le> x" and "x < 2 powi (ilog2 x + 1)"
    using q by (simp_all add: x pos_le_divide_eq pos_divide_less_eq)
qed

lemma ilog2_zero: "ilog2 0 = 0"
  by (simp add: ilog2_def log2_down.simps)

lemma nearest_eq: "nearest x = quantum x * of_int (round_half_even (x / quantum x))"
proof (cases "0 \<le> quantum_exponent x")
  case True
  then have "quantum x = of_int (2 ^ nat (quantum_exponent x))"
    by (simp add: quantum_def power_int_def)
  then show ?thesis using True by (simp add: nearest_def Let_def)
next
  case False
  then have q: "quantum x = 1 / of_int (2 ^ nat (- quantum_exponent x))"
    by (simp add: quantum_def power_int_def inverse_eq_divide power_one_over)
  show ?thesis using False unfolding nearest_def Let_def q
    by (simp add: Fract_of_int_quotient)
qed

lemma quantum_unfold: "quantum x = 2 powi (max (ilog2 \<bar>x\<bar>) (- 1022) - 52)"
  by (simp add: quantum_def quantum_exponent_def)

lemma rnd_unfold:
  "rnd x =
     (if x = 0 then Finite 0
      else if 1024 \<le> ilog2 \<bar>nearest x\<bar> then (if 0 < x then PInf else NInf)
      else Finite (nearest x))"
  by (simp add: rnd_def Let_def)

lemma pow_2_unfold: "pow_2 k = rnd (2 powi k)"
proof -
  have "(if 0 \<le> k then of_int (2 ^ nat k) else Fract 1 (2 ^ nat (- k))) = (2::rat) powi k"
    by (simp add: power_int_def Fract_of_int_quotient inverse_eq_divide power_one_over)
  then show ?thesis by (simp only: pow_2_def)
qed

lemma ilog2_less:
  assumes "0 < x" "x < 2 powi k"
  shows "ilog2 x < k"
proof (rule ccontr)
  assume "\<not> ilog2 x < k"
  then have "k \<le> ilog2 x" by simp
  then have "(2::rat) powi k \<le> 2 powi ilog2 x" by (rule power_int_increasing) simp
  also have "\<dots> \<le> x" using assms(1) by (rule ilog2_bounds(1))
  finally show False using assms(2) by simp
qed

lemma ilog2_ge:
  assumes "0 < x" "2 powi k \<le> x"
  shows "k \<le> ilog2 x"
proof (rule ccontr)
  assume "\<not> k \<le> ilog2 x"
  then have "ilog2 x + 1 \<le> k" by simp
  then have "(2::rat) powi (ilog2 x + 1) \<le> 2 powi k" by (rule power_int_increasing) simp
  also have "\<dots> \<le> x" by (rule assms(2))
  finally show False using ilog2_bounds(2) [OF assms(1)] by simp
qed

lemma round_half_even_ge:
  assumes "of_int N \<le> y"
  shows "N \<le> round_half_even y"
proof -
  have "N \<le> \<lfloor>y\<rfloor>" using assms by (simp add: le_floor_iff)
  then show ?thesis by (simp add: round_half_even_def Let_def)
qed

lemma round_half_even_le:
  assumes "y \<le> of_int N"
  shows "round_half_even y \<le> N"
proof (cases "\<lfloor>y\<rfloor> = N")
  case True
  then have "y - of_int \<lfloor>y\<rfloor> \<le> 0" using assms by simp
  then have "y - of_int \<lfloor>y\<rfloor> < 1 / 2" by simp
  then show ?thesis using True by (simp add: round_half_even_def Let_def)
next
  case False
  have "\<lfloor>y\<rfloor> \<le> N" using assms by (simp add: floor_le_iff)
  then have "\<lfloor>y\<rfloor> + 1 \<le> N" using False by simp
  then show ?thesis by (auto simp: round_half_even_def Let_def)
qed

lemma quantum_pos: "0 < quantum x"
  by (simp add: quantum_unfold zero_less_power_int)

lemma nearest_ge:
  assumes "of_int N * quantum x \<le> x"
  shows "of_int N * quantum x \<le> nearest x"
proof -
  have "of_int N \<le> x / quantum x"
    using assms quantum_pos [of x] by (simp add: pos_le_divide_eq)
  then have "N \<le> round_half_even (x / quantum x)" by (rule round_half_even_ge)
  then have "(of_int N :: rat) \<le> of_int (round_half_even (x / quantum x))" by simp
  then have "of_int N * quantum x \<le> of_int (round_half_even (x / quantum x)) * quantum x"
    using quantum_pos [of x] by (simp only: mult_le_cancel_right_pos)
  then show ?thesis by (simp add: nearest_eq mult.commute)
qed

lemma nearest_le:
  assumes "x \<le> of_int N * quantum x"
  shows "nearest x \<le> of_int N * quantum x"
proof -
  have "x / quantum x \<le> of_int N"
    using assms quantum_pos [of x] by (simp add: pos_divide_le_eq)
  then have "round_half_even (x / quantum x) \<le> N" by (rule round_half_even_le)
  then have "(of_int (round_half_even (x / quantum x)) :: rat) \<le> of_int N" by simp
  then have "of_int (round_half_even (x / quantum x)) * quantum x \<le> of_int N * quantum x"
    using quantum_pos [of x] by (simp only: mult_le_cancel_right_pos)
  then show ?thesis by (simp add: nearest_eq mult.commute)
qed

lemma quantum_small:
  assumes "\<bar>x\<bar> < 2 ^ (52 - j)" "j \<le> 52"
  shows "\<exists>i. quantum x = 1 / 2 ^ (j + i)"
proof -
  define m where "m = max (ilog2 \<bar>x\<bar>) (- 1022)"
  have e: "ilog2 \<bar>x\<bar> \<le> 52 - int j"
  proof (cases "x = 0")
    case True
    show ?thesis using True assms(2) by (simp add: ilog2_zero)
  next
    case False
    then have p: "0 < \<bar>x\<bar>" by simp
    have "\<bar>x\<bar> < 2 powi (52 - int j)"
      using assms by (simp add: power_int_def nat_diff_distrib')
    from ilog2_less [OF p this] show ?thesis by simp
  qed
  then have m: "m \<le> 52 - int j" using assms(2) by (simp add: m_def)
  define i where "i = nat (52 - int j - m)"
  have "m - 52 = - int (j + i)" using m by (simp add: i_def)
  then have "quantum x = 2 powi (- int (j + i))" by (simp add: quantum_unfold m_def)
  also have "\<dots> = 1 / 2 ^ (j + i)"
    by (simp only: power_int_minus power_int_of_nat inverse_eq_divide)
  finally show ?thesis by blast
qed

lemma nearest_grid:
  assumes "\<bar>x\<bar> < 2 ^ (52 - j)" "j \<le> 52"
  shows "of_int N / 2 ^ j \<le> x \<Longrightarrow> of_int N / 2 ^ j \<le> nearest x"
    and "x \<le> of_int N / 2 ^ j \<Longrightarrow> nearest x \<le> of_int N / 2 ^ j"
proof -
  obtain i where q: "quantum x = 1 / 2 ^ (j + i)"
    using quantum_small [OF assms] by blast
  have g: "of_int N / 2 ^ j = of_int (N * 2 ^ i) * quantum x"
    by (simp add: q power_add)
  show "of_int N / 2 ^ j \<le> x \<Longrightarrow> of_int N / 2 ^ j \<le> nearest x"
    unfolding g by (rule nearest_ge)
  show "x \<le> of_int N / 2 ^ j \<Longrightarrow> nearest x \<le> of_int N / 2 ^ j"
    unfolding g by (rule nearest_le)
qed

lemma nearest_int:
  assumes "\<bar>x\<bar> < 2 ^ 52"
  shows "of_int N \<le> x \<Longrightarrow> of_int N \<le> nearest x"
    and "x \<le> of_int N \<Longrightarrow> nearest x \<le> of_int N"
  using nearest_grid [of x 0 N] assms by simp_all

lemma rnd_small:
  assumes "\<bar>x\<bar> < 2 ^ 52"
  shows "rnd x = Finite (nearest x)"
proof -
  have "of_int (- (2 ^ 52)) \<le> x" "x \<le> of_int (2 ^ 52)" using assms by simp_all
  then have "of_int (- (2 ^ 52)) \<le> nearest x" "nearest x \<le> of_int (2 ^ 52)"
    using nearest_int [OF assms] by blast+
  then have "\<bar>nearest x\<bar> < 2 powi 53" by simp
  then have "ilog2 \<bar>nearest x\<bar> < 53"
    by (cases "nearest x = 0") (simp_all add: ilog2_zero ilog2_less)
  then have b: "\<not> 1024 \<le> ilog2 \<bar>nearest x\<bar>" by simp
  have "nearest 0 = 0" using nearest_int [of 0 0] by simp
  then show ?thesis using b by (simp add: rnd_unfold)
qed

lemma nearest_error:
  assumes "\<bar>x\<bar> < 2 ^ 33"
  shows "x - 1 / 2 ^ 19 \<le> nearest x" and "nearest x \<le> x + 1 / 2 ^ 19"
proof -
  have a: "\<bar>x\<bar> < 2 ^ (52 - 19)" using assms by simp
  have b: "(19::nat) \<le> 52" by simp
  define lo where "lo = \<lfloor>x * 2 ^ 19\<rfloor>"
  define hi where "hi = \<lceil>x * 2 ^ 19\<rceil>"
  have "of_int lo \<le> x * 2 ^ 19" unfolding lo_def by (rule of_int_floor_le)
  then have "of_int lo / 2 ^ 19 \<le> x" by (simp add: pos_divide_le_eq)
  then have l: "of_int lo / 2 ^ 19 \<le> nearest x" by (rule nearest_grid(1) [OF a b])
  have "x * 2 ^ 19 - 1 \<le> of_int lo" unfolding lo_def by linarith
  then have "x - 1 / 2 ^ 19 \<le> of_int lo / 2 ^ 19" by (simp add: field_simps)
  then show "x - 1 / 2 ^ 19 \<le> nearest x" using l by (rule order_trans)
  have "x * 2 ^ 19 \<le> of_int hi" unfolding hi_def by (rule le_of_int_ceiling)
  then have "x \<le> of_int hi / 2 ^ 19" by (simp add: pos_le_divide_eq)
  then have u: "nearest x \<le> of_int hi / 2 ^ 19" by (rule nearest_grid(2) [OF a b])
  have "of_int hi \<le> x * 2 ^ 19 + 1" unfolding hi_def by linarith
  then have "of_int hi / 2 ^ 19 \<le> x + 1 / 2 ^ 19" by (simp add: field_simps)
  with u show "nearest x \<le> x + 1 / 2 ^ 19" by (rule order_trans)
qed

lemma round_half_even_near:
  assumes "of_int N \<le> y" "y < of_int N + 1 / 2"
  shows "round_half_even y = N"
proof -
  have "\<lfloor>y\<rfloor> = N" using assms by (simp add: floor_unique)
  then show ?thesis using assms(2) by (simp add: round_half_even_def Let_def)
qed

lemma rnd_int:
  assumes "\<bar>N\<bar> < 2 ^ 52"
  shows "rnd (of_int N) = Finite (of_int N)"
proof -
  have "\<bar>of_int N :: rat\<bar> = of_int \<bar>N\<bar>" by simp
  also have "\<dots> < of_int (2 ^ 52)" using assms by (simp only: of_int_less_iff)
  finally have a: "\<bar>of_int N :: rat\<bar> < 2 ^ 52" by simp
  have "of_int N \<le> nearest (of_int N)" "nearest (of_int N) \<le> of_int N"
    using nearest_int [OF a, of N] by simp_all
  then show ?thesis using rnd_small [OF a] by simp
qed

lemma ilog2_power: "ilog2 (2 powi k) = k"
proof -
  have p: "(0::rat) < 2 powi k" by (simp add: zero_less_power_int)
  have "k \<le> ilog2 (2 powi k)" using p by (rule ilog2_ge) simp
  moreover have "ilog2 (2 powi k) < k + 1"
    using p by (rule ilog2_less) (simp add: power_int_strict_increasing)
  ultimately show ?thesis by simp
qed

lemma nearest_power:
  assumes "- 1022 \<le> k"
  shows "nearest (2 powi k) = 2 powi k"
proof -
  have q: "quantum (2 powi k) = 2 powi (k - 52)"
    using assms by (simp add: quantum_unfold ilog2_power)
  have "(2::rat) powi k / 2 powi (k - 52) = 2 powi (k - (k - 52))"
    by (simp add: power_int_diff)
  also have "\<dots> = of_int (2 ^ 52)" by simp
  finally have d: "(2::rat) powi k / quantum (2 powi k) = of_int (2 ^ 52)" by (simp only: q)
  have "round_half_even (of_int (2 ^ 52)) = 2 ^ 52"
    by (rule round_half_even_near) simp_all
  then have "nearest (2 powi k) = quantum (2 powi k) * of_int (2 ^ 52)"
    unfolding nearest_eq d by simp
  then have "nearest (2 powi k) = 2 powi (k - 52) * of_int (2 ^ 52)"
    by (simp only: q)
  also have "\<dots> = 2 powi (k - 52) * 2 powi 52" by simp
  also have "\<dots> = 2 powi (k - 52 + 52)" by (rule power_int_add [symmetric]) simp
  finally show ?thesis by simp
qed

lemma pow_2_finite: "0 \<le> k \<Longrightarrow> k \<le> 1023 \<Longrightarrow> pow_2 k = Finite (2 ^ nat k)"
proof -
  assume k: "0 \<le> k" "k \<le> 1023"
  have n: "nearest (2 powi k) = 2 powi k" using k by (simp add: nearest_power)
  have p: "(0::rat) < 2 powi k" by (simp add: zero_less_power_int)
  then have a: "\<bar>(2::rat) powi k\<bar> = 2 powi k" by (simp only: abs_of_pos)
  have "(2::rat) powi k \<noteq> 0" using p by simp
  then have "pow_2 k = Finite (2 powi k)"
    using k(2) by (simp only: pow_2_unfold rnd_unfold n a ilog2_power if_False) simp
  then show ?thesis using k by (simp add: power_int_def)
qed

lemma pow_2_overflow: "1024 \<le> k \<Longrightarrow> pow_2 k = PInf"
proof -
  assume k: "1024 \<le> k"
  have n: "nearest (2 powi k) = 2 powi k" using k by (simp add: nearest_power)
  have p: "(0::rat) < 2 powi k" by (simp add: zero_less_power_int)
  then have a: "\<bar>(2::rat) powi k\<bar> = 2 powi k" by (simp only: abs_of_pos)
  have "(2::rat) powi k \<noteq> 0" using p by simp
  then show ?thesis
    using k p by (simp only: pow_2_unfold rnd_unfold n a ilog2_power if_False if_True)
qed

lemma rnd_not_below:
  assumes "0 \<le> N" "N < 2 ^ 52" "of_int N \<le> x"
  shows "\<not> dless (rnd x) (Finite (of_int N))"
proof (cases "x < 2 ^ 52")
  case True
  have "(0::rat) \<le> of_int N" using assms(1) by simp
  then have "0 \<le> x" using assms(3) by (rule order_trans)
  then have a: "\<bar>x\<bar> < 2 ^ 52" using True by simp
  have "of_int N \<le> nearest x" using assms(3) by (rule nearest_int(1) [OF a])
  then show ?thesis by (simp add: rnd_small [OF a])
next
  case False
  then have x: "2 powi 52 \<le> x" by simp
  then have p: "0 < x" by simp
  have e: "52 \<le> ilog2 x" using p x by (rule ilog2_ge)
  have q: "quantum x = 2 powi (ilog2 x - 52)" using e p by (simp add: quantum_unfold)
  have "of_int (2 ^ 52) * quantum x = 2 powi 52 * 2 powi (ilog2 x - 52)" by (simp add: q)
  also have "\<dots> = 2 powi (52 + (ilog2 x - 52))" by (rule power_int_add [symmetric]) simp
  also have "\<dots> = 2 powi ilog2 x" by simp
  also have "\<dots> \<le> x" using p by (rule ilog2_bounds(1))
  finally have "of_int (2 ^ 52) * quantum x \<le> nearest x" by (rule nearest_ge)
  moreover have "1 \<le> quantum x"
  proof -
    have "(2::rat) powi 0 \<le> 2 powi (ilog2 x - 52)"
      using e by (intro power_int_increasing) simp_all
    then show ?thesis by (simp add: q)
  qed
  ultimately have "2 ^ 52 \<le> nearest x" by simp
  moreover have "(of_int N :: rat) < of_int (2 ^ 52)" using assms(2) by (simp only: of_int_less_iff)
  ultimately have "of_int N \<le> nearest x" by simp
  then show ?thesis using p by (simp add: rnd_unfold)
qed

lemma nearest_just_above:
  assumes "1 \<le> k" "k < 2 ^ 31"
  shows "nearest (of_int k + of_int k / 2 ^ 54) = of_int k"
proof -
  define K :: rat where "K = of_int k"
  define x where "x = K + K / 2 ^ 54"
  have K: "1 \<le> K" using assms(1) by (simp add: K_def)
  have "K < of_int (2 ^ 31)" unfolding K_def using assms(2) by (simp only: of_int_less_iff)
  then have K2: "K < 2 ^ 31" by simp
  have Kx: "K < x" using K by (simp add: x_def)
  have p: "0 < x" using K Kx by simp
  define e where "e = ilog2 x"
  have "(2::rat) powi 0 \<le> x" using K Kx by simp
  with p have e0: "0 \<le> e" unfolding e_def by (rule ilog2_ge)
  have "x < 2 powi 32" using K2 K by (simp add: x_def)
  with p have e1: "e < 32" unfolding e_def by (rule ilog2_less)
  have ub: "x < 2 powi (e + 1)" unfolding e_def using p by (rule ilog2_bounds(2))
  define s where "s = nat (52 - e)"
  have "e - 52 = - int s" using e1 by (simp add: s_def)
  then have "quantum x = 2 powi (- int s)" using e0 p by (simp add: quantum_unfold e_def)
  also have "\<dots> = 1 / 2 ^ s" by (simp only: power_int_minus power_int_of_nat inverse_eq_divide)
  finally have q: "quantum x = 1 / 2 ^ s" .
  have d: "x / quantum x = x * 2 ^ s" by (simp add: q)
  have A: "of_int (k * 2 ^ s) \<le> x * 2 ^ s" using Kx by (simp add: K_def)
  have "K * 2 ^ s < 2 powi (e + 1) * 2 ^ s" using Kx ub by simp
  also have "\<dots> = 2 powi (e + 1) * 2 powi (52 - e)" using e1 by (simp add: s_def power_int_def)
  also have "\<dots> = 2 powi (e + 1 + (52 - e))" by (rule power_int_add [symmetric]) simp
  also have "\<dots> = 2 ^ 53" by simp
  finally have "K * 2 ^ s / 2 ^ 54 < 2 ^ 53 / 2 ^ 54" by (simp only: divide_strict_right_mono zero_less_power zero_less_numeral)
  then have "K * 2 ^ s / 2 ^ 54 < 1 / 2" by simp
  moreover have "x * 2 ^ s = of_int (k * 2 ^ s) + K * 2 ^ s / 2 ^ 54"
    by (simp add: x_def K_def algebra_simps)
  ultimately have B: "x * 2 ^ s < of_int (k * 2 ^ s) + 1 / 2" by simp
  have "round_half_even (x * 2 ^ s) = k * 2 ^ s" using A B by (rule round_half_even_near)
  then have "nearest x = of_int k" by (simp add: nearest_eq d) (simp add: q)
  then show ?thesis by (simp add: x_def K_def)
qed

lemma rnd_fifth: "rnd (1 / 5) = Finite (3602879701896397 / 18014398509481984)"
  by code_simp

lemma rnd_two_fifths: "rnd (2 / 5) = Finite (3602879701896397 / 9007199254740992)"
  by code_simp

lemma capped_delay:
  assumes "1 \<le> attempt" "0 \<le> b" "b \<le> d" "d \<le> INT_MAX"
  shows "\<exists>c. Min_double (dmul (double_of_int b) (pow_2 (attempt - 1))) (double_of_int d)
               = Finite (of_int c)
           \<and> 0 \<le> c \<and> c \<le> d
           \<and> (b * 2 ^ nat (attempt - 1) < d \<and> (b = 0 \<longrightarrow> attempt \<le> 1024)
                \<longrightarrow> c = b * 2 ^ nat (attempt - 1))"
proof -
  define k where "k = attempt - 1"
  define X where "X = b * 2 ^ nat k"
  have k: "0 \<le> k" using assms(1) by (simp add: k_def)
  have d0: "0 \<le> d" using assms(2,3) by simp
  have "\<bar>d\<bar> < 2 ^ 52" using d0 assms(4) by (simp add: INT_MAX_def)
  then have D: "double_of_int d = Finite (of_int d)" unfolding double_of_int_def by (rule rnd_int)
  have "\<bar>b\<bar> < 2 ^ 52" using assms(2,3,4) by (simp add: INT_MAX_def)
  then have B: "double_of_int b = Finite (of_int b)" unfolding double_of_int_def by (rule rnd_int)
  have X0: "0 \<le> X" using assms(2) by (simp add: X_def)
  consider (nan) "b = 0" "1024 \<le> k" | (zero) "b = 0" "k \<le> 1023"
    | (inf) "0 < b" "1024 \<le> k" | (fin) "0 < b" "k \<le> 1023"
    using assms(2) by linarith
  then have "\<exists>c. Min_double (dmul (double_of_int b) (pow_2 k)) (double_of_int d) = Finite (of_int c)
           \<and> 0 \<le> c \<and> c \<le> d \<and> (X < d \<and> (b = 0 \<longrightarrow> k \<le> 1023) \<longrightarrow> c = X)"
  proof cases
    case nan
    have "Min_double (dmul (double_of_int b) (pow_2 k)) (double_of_int d) = Finite (of_int d)"
      unfolding B D using nan by (simp add: pow_2_overflow Min_double_def)
    then show ?thesis using d0 nan by auto
  next
    case zero
    have "dmul (double_of_int b) (pow_2 k) = Finite 0"
      unfolding B using zero k by (simp add: pow_2_finite rnd_unfold)
    then have "Min_double (dmul (double_of_int b) (pow_2 k)) (double_of_int d) = Finite (of_int 0)"
      unfolding D using d0 by (cases "d = 0") (simp_all add: Min_double_def)
    then show ?thesis using d0 zero by (auto simp: X_def)
  next
    case inf
    have "Min_double (dmul (double_of_int b) (pow_2 k)) (double_of_int d) = Finite (of_int d)"
      unfolding B D using inf by (simp add: pow_2_overflow Min_double_def)
    moreover have "\<not> X < d"
    proof -
      have "(2::int) ^ 31 \<le> 2 ^ nat k" using inf(2) by (intro power_increasing) simp_all
      also have "\<dots> \<le> b * 2 ^ nat k" using inf(1) by simp
      finally show ?thesis using assms(4) by (simp add: X_def INT_MAX_def)
    qed
    ultimately show ?thesis using d0 by auto
  next
    case fin
    have m: "dmul (double_of_int b) (pow_2 k) = rnd (of_int X)"
      unfolding B using fin k by (simp add: pow_2_finite X_def)
    show ?thesis
    proof (cases "X < d")
      case True
      then have "\<bar>X\<bar> < 2 ^ 52" using X0 assms(4) by (simp add: INT_MAX_def)
      then have "rnd (of_int X) = Finite (of_int X)" by (rule rnd_int)
      then have "Min_double (dmul (double_of_int b) (pow_2 k)) (double_of_int d) = Finite (of_int X)"
        unfolding m D using True by (simp add: Min_double_def)
      then show ?thesis using X0 True by auto
    next
      case False
      have "d < 2 ^ 52" using assms(4) by (simp add: INT_MAX_def)
      moreover have "(of_int d :: rat) \<le> of_int X" using False by simp
      ultimately have "\<not> dless (rnd (of_int X)) (Finite (of_int d))"
        using d0 by (intro rnd_not_below) simp_all
      then have "Min_double (dmul (double_of_int b) (pow_2 k)) (double_of_int d) = Finite (of_int d)"
        unfolding m D by (simp add: Min_double_def)
      then show ?thesis using d0 False by auto
    qed
  qed
  moreover have "k \<le> 1023 \<longleftrightarrow> attempt \<le> 1024" by (simp add: k_def)
  ultimately show ?thesis unfolding X_def k_def by simp
qed

lemma jittered:
  fixes c :: int and u :: rat
  assumes c: "0 \<le> c" "c \<le> INT_MAX" and u: "0 \<le> u" "u \<le> 1"
  shows "\<exists>w. dadd (Finite (of_int c))
                (dsub (dmul (dmul (Finite u) (Finite (of_int c))) (rnd (2 / 5)))
                      (dmul (Finite (of_int c)) (rnd (1 / 5)))) = Finite w
             \<and> of_int ((4 * c) div 5) \<le> w \<and> w < of_int ((6 * c) div 5) + 1"
proof -
  let ?p1 = "3602879701896397 / 18014398509481984 :: rat"
  let ?p2 = "3602879701896397 / 9007199254740992 :: rat"
  define C :: rat where "C = of_int c"
  have "(of_int 0 :: rat) \<le> of_int c" using c(1) by (simp only: of_int_le_iff)
  then have C0: "0 \<le> C" by (simp add: C_def)
  have "(of_int c :: rat) \<le> of_int 2147483647"
    using c(2) unfolding INT_MAX_def by (simp only: of_int_le_iff)
  then have C1: "C \<le> 2147483647" by (simp add: C_def)
  define t where "t = nearest (u * C)"
  have uC0: "0 \<le> u * C" using u(1) C0 by simp
  have uC1: "u * C \<le> C" using mult_right_mono [OF u(2) C0] by simp
  have tb: "\<bar>u * C\<bar> < 2 ^ 52" using uC0 uC1 C1 by simp
  have t0: "0 \<le> t" using nearest_int(1) [OF tb, of 0] uC0 by (simp add: t_def)
  have t1: "t \<le> C" using nearest_int(2) [OF tb, of c] uC1 by (simp add: t_def C_def)
  have T: "dmul (Finite u) (Finite C) = Finite t"
    by (simp add: rnd_small [OF tb] t_def)
  define a where "a = nearest (t * ?p2)"
  have ab: "\<bar>t * ?p2\<bar> < 2 ^ 33" using t0 t1 C1 by simp
  then have ab': "\<bar>t * ?p2\<bar> < 2 ^ 52" by simp
  have a0: "0 \<le> a" using nearest_int(1) [OF ab', of 0] t0 by (simp add: a_def)
  have a1: "a \<le> t * ?p2 + 1 / 524288" using nearest_error(2) [OF ab] by (simp add: a_def)
  have A: "dmul (Finite t) (Finite ?p2) = Finite a"
    by (simp only: dmul.simps rnd_small [OF ab'] a_def)
  define b where "b = nearest (C * ?p1)"
  have bb: "\<bar>C * ?p1\<bar> < 2 ^ 33" using C0 C1 by simp
  then have bb': "\<bar>C * ?p1\<bar> < 2 ^ 52" by simp
  have b0: "C * ?p1 - 1 / 524288 \<le> b" using nearest_error(1) [OF bb] by (simp add: b_def)
  have b1: "b \<le> C * ?p1 + 1 / 524288" using nearest_error(2) [OF bb] by (simp add: b_def)
  have B: "dmul (Finite C) (Finite ?p1) = Finite b"
    by (simp only: dmul.simps rnd_small [OF bb'] b_def)
  define j where "j = nearest (a + - b)"
  have jb: "\<bar>a + - b\<bar> < 2 ^ 33" using a0 a1 b0 b1 t0 t1 C0 C1 by simp
  then have jb': "\<bar>a + - b\<bar> < 2 ^ 52" by simp
  have j0: "a - b - 1 / 524288 \<le> j" using nearest_error(1) [OF jb] by (simp add: j_def)
  have j1: "j \<le> a - b + 1 / 524288" using nearest_error(2) [OF jb] by (simp add: j_def)
  have J: "dsub (Finite a) (Finite b) = Finite j"
    by (simp only: dsub_def dneg.simps dadd.simps rnd_small [OF jb'] j_def)
  define w where "w = nearest (C + j)"
  have wb: "\<bar>C + j\<bar> < 2 ^ 33" using j0 j1 a0 a1 b0 b1 t0 t1 C0 C1 by simp
  then have wb': "\<bar>C + j\<bar> < 2 ^ 52" by simp
  have w1: "w \<le> C + j + 1 / 524288" using nearest_error(2) [OF wb] by (simp add: w_def)
  have W: "dadd (Finite C) (Finite j) = Finite w"
    by (simp only: dadd.simps rnd_small [OF wb'] w_def)
  have all: "dadd (Finite (of_int c))
                (dsub (dmul (dmul (Finite u) (Finite (of_int c))) (rnd (2 / 5)))
                      (dmul (Finite (of_int c)) (rnd (1 / 5)))) = Finite w"
    unfolding rnd_fifth rnd_two_fifths C_def [symmetric] T A B J W ..
  have "6 * c - 4 \<le> 5 * ((6 * c) div 5)" by presburger
  then have "(of_int (6 * c - 4) :: rat) \<le> of_int (5 * ((6 * c) div 5))"
    by (simp only: of_int_le_iff)
  then have d6: "6 * C - 4 \<le> 5 * of_int ((6 * c) div 5)" by (simp add: C_def)
  have upper: "w < of_int ((6 * c) div 5) + 1"
    using w1 j1 a1 b0 t1 C1 d6 by simp
  have lower: "of_int ((4 * c) div 5) \<le> w"
  proof (cases "5 dvd c")
    case True
    then obtain k where k: "c = 5 * k" by (auto simp: dvd_def)
    have k0: "0 \<le> k" using c(1) k by simp
    have k1: "k < 2 ^ 31" using c(2) k by (simp add: INT_MAX_def)
    have "C * ?p1 = of_int k + of_int k / 2 ^ 54" by (simp add: C_def k)
    then have "b = nearest (of_int k + of_int k / 2 ^ 54)" by (simp only: b_def)
    also have "\<dots> = of_int k"
    proof (cases "k = 0")
      case True
      have "nearest 0 = 0" using nearest_int [of 0 0] by simp
      then show ?thesis using True by simp
    next
      case False
      then have "1 \<le> k" using k0 by simp
      then show ?thesis using k1 by (rule nearest_just_above)
    qed
    finally have bk: "b = of_int k" .
    have "of_int (- k) \<le> a + - b" using a0 by (simp add: bk)
    then have "of_int (- k) \<le> j" unfolding j_def by (rule nearest_int(1) [OF jb'])
    then have "of_int (4 * k) \<le> C + j" by (simp add: C_def k)
    then have "of_int (4 * k) \<le> w" unfolding w_def by (rule nearest_int(1) [OF wb'])
    then show ?thesis by (simp add: k)
  next
    case False
    then have "5 * ((4 * c) div 5) \<le> 4 * c - 1" by presburger
    then have "(of_int (5 * ((4 * c) div 5)) :: rat) \<le> of_int (4 * c - 1)"
      by (simp only: of_int_le_iff)
    then have d4: "5 * of_int ((4 * c) div 5) \<le> 4 * C - 1" by (simp add: C_def)
    have "of_int ((4 * c) div 5) \<le> C + j"
      using j0 a0 b1 C0 C1 d4 by simp
    then show ?thesis unfolding w_def by (rule nearest_int(1) [OF wb'])
  qed
  show ?thesis using all lower upper by blast
qed

text \<open>
  Some values of the model against the doubles themselves: the double nearest to 0.1 is
  \<^verbatim>\<open>0x3FB999999999999A\<close>, a tie is rounded to the even neighbour (above \<open>2 ^ 53\<close> the doubles
  are the even integers), and a cast truncates toward zero.
\<close>

lemma rnd_examples:
  "rnd (1 / 10) = Finite (3602879701896397 / 36028797018963968)"
  "rnd 9007199254740993 = Finite 9007199254740992"
  "rnd 9007199254740995 = Finite 9007199254740996"
  "rnd (- 9007199254740993) = Finite (- 9007199254740992)"
  "rnd (3 / 2) = Finite (3 / 2)"
  "pow_2 (- 1) = Finite (1 / 2)"
  "pow_2 10 = Finite 1024"
  "long_of_double (Finite (51 / 20)) = 2"
  "long_of_double (Finite (- 51 / 20)) = - 2"
  by code_simp+

lemma long_of_double_floor:
  assumes "0 \<le> w" "w < 2 ^ 33"
  shows "long_of_double (Finite w) = \<lfloor>w\<rfloor>"
proof -
  have "0 \<le> \<lfloor>w\<rfloor>" using assms(1) by simp
  moreover have "\<lfloor>w\<rfloor> < 2 ^ 33" using assms(2) by (simp add: floor_less_iff)
  ultimately show ?thesis using assms(1) by (simp add: LONG_MIN_def LONG_MAX_def Let_def)
qed

text \<open>
  The delay in terms of the capped value \<open>c\<close>: at least four fifths and at most six fifths
  of it, in whole milliseconds, and never less than 1.
\<close>

lemma calculate_delay_capped:
  assumes "1 \<le> attempt" "0 \<le> b" "b \<le> d" "d \<le> INT_MAX"
    and "uniform h attempt = Finite u" "0 \<le> u" "u \<le> 1"
  shows "\<exists>c. 0 \<le> c \<and> c \<le> d
           \<and> (b * 2 ^ nat (attempt - 1) < d \<and> (b = 0 \<longrightarrow> attempt \<le> 1024)
                \<longrightarrow> c = b * 2 ^ nat (attempt - 1))
           \<and> max 1 ((4 * c) div 5) \<le> calculate_delay h attempt b d
           \<and> calculate_delay h attempt b d \<le> max 1 ((6 * c) div 5)"
proof -
  obtain c where cap: "Min_double (dmul (double_of_int b) (pow_2 (attempt - 1))) (double_of_int d)
               = Finite (of_int c)"
    and c: "0 \<le> c" "c \<le> d"
    and X: "b * 2 ^ nat (attempt - 1) < d \<and> (b = 0 \<longrightarrow> attempt \<le> 1024)
                \<longrightarrow> c = b * 2 ^ nat (attempt - 1)"
    using capped_delay [OF assms(1-4)] by blast
  have cm: "c \<le> INT_MAX" using c(2) assms(4) by simp
  obtain w where W: "dadd (Finite (of_int c))
                (dsub (dmul (dmul (Finite u) (Finite (of_int c))) (rnd (2 / 5)))
                      (dmul (Finite (of_int c)) (rnd (1 / 5)))) = Finite w"
    and w: "of_int ((4 * c) div 5) \<le> w" "w < of_int ((6 * c) div 5) + 1"
    using jittered [OF c(1) cm assms(6,7)] by blast
  have cd: "calculate_delay h attempt b d = max 1 (long_of_double (Finite w))"
    unfolding calculate_delay_def Let_def cap assms(5) W ..
  have "0 \<le> (4 * c) div 5" using c(1) by simp
  then have "(of_int 0 :: rat) \<le> of_int ((4 * c) div 5)" by (simp only: of_int_le_iff)
  then have w0: "0 \<le> w" using w(1) by simp
  have "(6 * c) div 5 + 1 \<le> 2 ^ 33" using cm by (simp add: INT_MAX_def)
  then have "(of_int ((6 * c) div 5 + 1) :: rat) \<le> of_int (2 ^ 33)" by (simp only: of_int_le_iff)
  then have w1: "w < 2 ^ 33" using w(2) by simp
  have lo: "(4 * c) div 5 \<le> \<lfloor>w\<rfloor>" using w(1) by (simp add: le_floor_iff)
  have "w < of_int ((6 * c) div 5 + 1)" using w(2) by simp
  then have "\<lfloor>w\<rfloor> < (6 * c) div 5 + 1" by (simp only: floor_less_iff)
  then have hi: "\<lfloor>w\<rfloor> \<le> (6 * c) div 5" by simp
  have "calculate_delay h attempt b d = max 1 \<lfloor>w\<rfloor>"
    by (simp only: cd long_of_double_floor [OF w0 w1])
  then have "max 1 ((4 * c) div 5) \<le> calculate_delay h attempt b d"
    "calculate_delay h attempt b d \<le> max 1 ((6 * c) div 5)"
    using lo hi by simp_all
  then show ?thesis using c X by blast
qed

text \<open>
  C6, as the code has it. For an attempt \<open>n \<ge> 1\<close>, delays with
  \<open>0 \<le> base_delay_ms \<le> max_delay_ms\<close> and a draw between 0 and 1, the delay is a whole
  number of milliseconds between 1 and \<open>max 1 \<lfloor>1.2 * max_delay_ms\<rfloor>\<close>. When
  \<open>base_delay_ms * 2^(n-1)\<close> is below \<open>max_delay_ms\<close> (and, for \<open>base_delay_ms = 0\<close>, \<open>n\<close> is
  at most 1024), the delay lies between \<open>\<lfloor>0.8 * base_delay_ms * 2^(n-1)\<rfloor>\<close> and
  \<open>\<lfloor>1.2 * base_delay_ms * 2^(n-1)\<rfloor>\<close>, both raised to 1 if smaller: the cast to \<^verbatim>\<open>long\<close>
  drops the fraction, so the lower end is the whole part of four fifths of the base value,
  not four fifths of it. With both delays 0 the result is exactly 1.
\<close>

theorem backoff_delay_bounds:
  assumes "1 \<le> attempt" and "0 \<le> base_delay_ms" and "base_delay_ms \<le> max_delay_ms"
    and "max_delay_ms \<le> INT_MAX"
    and "uniform h attempt = Finite u" and "0 \<le> u" and "u \<le> 1"
  shows "1 \<le> calculate_delay h attempt base_delay_ms max_delay_ms
     \<and> calculate_delay h attempt base_delay_ms max_delay_ms \<le> max 1 ((6 * max_delay_ms) div 5)
     \<and> (base_delay_ms * 2 ^ nat (attempt - 1) < max_delay_ms
          \<and> (0 < base_delay_ms \<or> attempt \<le> 1024) \<longrightarrow>
            max 1 ((4 * (base_delay_ms * 2 ^ nat (attempt - 1))) div 5)
              \<le> calculate_delay h attempt base_delay_ms max_delay_ms
          \<and> calculate_delay h attempt base_delay_ms max_delay_ms
              \<le> max 1 ((6 * (base_delay_ms * 2 ^ nat (attempt - 1))) div 5))
     \<and> calculate_delay h attempt 0 0 = 1"
proof -
  obtain c where c: "0 \<le> c" "c \<le> max_delay_ms"
    and X: "base_delay_ms * 2 ^ nat (attempt - 1) < max_delay_ms
              \<and> (base_delay_ms = 0 \<longrightarrow> attempt \<le> 1024)
            \<longrightarrow> c = base_delay_ms * 2 ^ nat (attempt - 1)"
    and lo: "max 1 ((4 * c) div 5) \<le> calculate_delay h attempt base_delay_ms max_delay_ms"
    and hi: "calculate_delay h attempt base_delay_ms max_delay_ms \<le> max 1 ((6 * c) div 5)"
    using calculate_delay_capped [OF assms] by blast
  have one: "1 \<le> calculate_delay h attempt base_delay_ms max_delay_ms" using lo by simp
  have "(6 * c) div 5 \<le> (6 * max_delay_ms) div 5" using c(2) by (intro zdiv_mono1) simp_all
  then have top: "calculate_delay h attempt base_delay_ms max_delay_ms
                    \<le> max 1 ((6 * max_delay_ms) div 5)"
    using hi by simp
  have z: "(0::int) \<le> 0" "(0::int) \<le> INT_MAX" by (simp_all add: INT_MAX_def)
  obtain c0 where "0 \<le> c0" "c0 \<le> 0"
    and "max 1 ((4 * c0) div 5) \<le> calculate_delay h attempt 0 0"
    and "calculate_delay h attempt 0 0 \<le> max 1 ((6 * c0) div 5)"
    using calculate_delay_capped [OF assms(1) z(1) z(1) z(2) assms(5-7)] by blast
  then have zero: "calculate_delay h attempt 0 0 = 1" by simp
  show ?thesis using one top zero X lo hi by auto
qed

theorem backoff_delay_bounds_witness:
  "(1::int) \<le> 2 \<and> (0::int) \<le> 50 \<and> (50::int) \<le> 1000 \<and> 1000 \<le> INT_MAX
   \<and> uniform (quiet_host updates_7) 2 = Finite (1 / 2) \<and> (0::rat) \<le> 1 / 2 \<and> (1 / 2 :: rat) \<le> 1
   \<and> (50::int) * 2 ^ nat (2 - 1) < 1000 \<and> (0::int) < 50
   \<and> 1 \<le> calculate_delay (quiet_host updates_7) 2 50 1000
   \<and> calculate_delay (quiet_host updates_7) 2 50 1000 \<le> 1200
   \<and> 80 \<le> calculate_delay (quiet_host updates_7) 2 50 1000
   \<and> calculate_delay (quiet_host updates_7) 2 50 1000 \<le> 120
   \<and> calculate_delay (quiet_host updates_7) 2 0 0 = 1"
  using backoff_delay_bounds [of 2 50 1000 "quiet_host updates_7" "1 / 2"]
  by (simp add: quiet_host_def INT_MAX_def)

text \<open>
  C6 as stated fails on both of its intervals. With \<open>base_delay_ms = 3\<close>,
  \<open>max_delay_ms = 10\<close> and a draw of 0.125 the first delay is \<open>(long)2.55 = 2\<close>, below
  \<open>0.8 * 3 = 2.4\<close> although \<open>3 < 10\<close>, and the floor of 1 is not what lowers it. With both
  delays 0 the result is 1, which is above \<open>1.2 * 0\<close>.
\<close>

theorem delay_below_four_fifths_counterexample:
  "calculate_delay low_draw_host 1 3 10 = 2
   \<and> uniform low_draw_host 1 = Finite (1 / 8)
   \<and> (3::int) * 2 ^ nat (1 - 1) < 10
   \<and> (of_int (calculate_delay low_draw_host 1 3 10) :: rat) < 4 / 5 * (3 * 2 ^ nat (1 - 1))
   \<and> calculate_delay low_draw_host 1 0 0 = 1
   \<and> \<not> (of_int (calculate_delay low_draw_host 1 0 0) :: rat) \<le> 0 * (6 / 5)"
  by code_simp

text \<open>
  Beyond attempt 1024 a base delay of 0 no longer gives the floor of 1 ms:
  \<^verbatim>\<open>pow(2.0, attempt - 1)\<close> is infinite, \<^verbatim>\<open>0 * infinity\<close> is a NaN, and \<^verbatim>\<open>Min\<close>, whose
  comparison is false on a NaN, returns \<^verbatim>\<open>max_delay_ms\<close>. With a draw of 0.5 the delay is
  then \<^verbatim>\<open>max_delay_ms\<close> itself.
\<close>

lemma zero_base_after_1024_attempts:
  assumes "1025 \<le> attempt"
  shows "calculate_delay (quiet_host updates_7) attempt 0 1000 = 1000"
proof -
  have p: "pow_2 (attempt - 1) = PInf" using assms by (intro pow_2_overflow) simp
  have z: "double_of_int 0 = Finite 0" by code_simp
  have m: "double_of_int 1000 = Finite 1000" by code_simp
  have j: "max 1 (long_of_double (dadd (Finite 1000)
             (dsub (dmul (dmul (Finite (1 / 2)) (Finite 1000)) (rnd (2 / 5)))
                   (dmul (Finite 1000) (rnd (1 / 5)))))) = 1000"
    by code_simp
  have u: "uniform (quiet_host updates_7) attempt = Finite (1 / 2)" by (simp add: quiet_host_def)
  have "Min_double (dmul (double_of_int 0) (pow_2 (attempt - 1))) (double_of_int 1000)
          = Finite 1000"
    unfolding p z m by (simp add: Min_double_def)
  then show ?thesis unfolding calculate_delay_def Let_def u by (simp only: j)
qed

section \<open>The two files compared\<close>

text \<open>
  The loops agree, outcome and trace, when they are given the same array of codes,
  \<open>max_tries < INT_MAX\<close>, no release raises, and no attempt before the last one allowed
  fails with an error that is not retryable.
\<close>

lemma variants_agree:
  assumes early: "retryable_before_last h c m" and m: "m < INT_MAX"
    and release: "released_quietly h m"
  shows "1 \<le> attempt \<Longrightarrow> attempt \<le> m \<Longrightarrow> \<not> success sa \<Longrightarrow> \<not> success sb \<Longrightarrow>
     retry_loop_A h m b d c sa attempt = retry_loop_B h m b d c sb attempt"
proof (induction "nat (m - attempt)" arbitrary: attempt)
  case 0
  then have eq: "attempt = m" by simp
  have ne: "attempt \<noteq> INT_MAX" using eq m by simp
  have rel: "ReleaseCurrentSubTransaction h attempt = None"
    using release "0.prems"(1,2) by (simp add: released_quietly_def)
  show ?case
  proof (cases "caught h attempt")
    case None
    from caught_NoneD [OF None rel, of sa sb]
    obtain rows where
      "try_body h attempt sa = (sa\<lparr>processed_rows := rows, success := True\<rparr>, None)"
      "try_body h attempt sb = (sb\<lparr>processed_rows := rows, success := True\<rparr>, None)"
      by blast
    then show ?thesis
      using retry_loop_A_Break [OF "0.prems"(2) loop_body_A_success]
        retry_loop_B_Break [OF "0.prems"(2) loop_body_B_success]
      by (simp add: after_loop_A_def after_loop_B_def)
  next
    case (Some e)
    have A: "retry_loop_A h m b d c sa attempt =
        emit (SubXact attempt # log_retry c attempt m e)
          (retry_loop_A h m b d c (sa\<lparr>last_error := Some e\<rparr>) (attempt + 1))"
      using retry_loop_A_Continue [OF "0.prems"(2) _ ne]
        loop_body_A_save [OF caught_SomeD [OF Some]] eq "0.prems"(3)
      by simp
    have "retry_loop_A h m b d c (sa\<lparr>last_error := Some e\<rparr>) (attempt + 1) =
        (ReThrowError e, [])"
      using retry_loop_A_done [of "attempt + 1" m] eq "0.prems"(3) by (simp add: after_loop_A_def)
    with A have "retry_loop_A h m b d c sa attempt =
        (ReThrowError e, SubXact attempt # log_retry c attempt m e)"
      by (simp add: emit_def)
    moreover have "retry_loop_B h m b d c sb attempt =
        (ReThrowError e, SubXact attempt # log_retry c attempt m e)"
      using retry_loop_B_Leave [OF "0.prems"(2) loop_body_B_rethrow [OF caught_SomeD [OF Some]]] eq
      by simp
    ultimately show ?thesis by simp
  qed
next
  case (Suc k)
  then have lt: "attempt < m" by linarith
  then have ne: "attempt \<noteq> INT_MAX" using m by simp
  have k: "k = nat (m - (attempt + 1))" using Suc.hyps(2) by linarith
  have rel: "ReleaseCurrentSubTransaction h attempt = None"
    using release Suc.prems(1,2) by (simp add: released_quietly_def)
  show ?case
  proof (cases "caught h attempt")
    case None
    from caught_NoneD [OF None rel, of sa sb]
    obtain rows where
      "try_body h attempt sa = (sa\<lparr>processed_rows := rows, success := True\<rparr>, None)"
      "try_body h attempt sb = (sb\<lparr>processed_rows := rows, success := True\<rparr>, None)"
      by blast
    then show ?thesis
      using retry_loop_A_Break [OF Suc.prems(2) loop_body_A_success]
        retry_loop_B_Break [OF Suc.prems(2) loop_body_B_success]
      by (simp add: after_loop_A_def after_loop_B_def)
  next
    case (Some e)
    have "attempt \<in> set [1..m - 1]" using Suc.prems(1) lt by simp
    with early have "case caught h attempt of Some e \<Rightarrow> should_retry c e | None \<Rightarrow> True"
      unfolding retryable_before_last_def by blast
    then have r: "should_retry c e"
      using Some by simp
    have bA: "loop_body_A h m b d c sa attempt =
        ([SubXact attempt, retry_warning attempt m e, backoff h attempt b d],
         case CHECK_FOR_INTERRUPTS h attempt of
           Some e' \<Rightarrow> Leave (host_ERROR e')
         | None \<Rightarrow> if success sa then Break sa else Continue sa)"
      using loop_body_A_retry [OF caught_SomeD [OF Some] r lt] by simp
    have bB: "loop_body_B h m b d c sb attempt =
        ([SubXact attempt, retry_warning attempt m e, backoff h attempt b d],
         case CHECK_FOR_INTERRUPTS h attempt of
           Some e' \<Rightarrow> Leave (host_ERROR e')
         | None \<Rightarrow> if success sb then Break sb else Continue sb)"
      using loop_body_B_retry [OF caught_SomeD [OF Some] r lt] by simp
    show ?thesis
    proof (cases "CHECK_FOR_INTERRUPTS h attempt")
      case (Some e')
      show ?thesis
        using retry_loop_A_Leave [OF Suc.prems(2) bA [unfolded Some option.case]]
          retry_loop_B_Leave [OF Suc.prems(2) bB [unfolded Some option.case]]
        by simp
    next
      case None
      have "retry_loop_A h m b d c sa (attempt + 1) = retry_loop_B h m b d c sb (attempt + 1)"
        using Suc.hyps(1) [OF k] lt Suc.prems by simp
      then show ?thesis
        using retry_loop_A_Continue [OF Suc.prems(2) _ ne, of h b d c sa _ sa]
          retry_loop_B_Continue [OF Suc.prems(2) _ ne, of h b d c sb _ sb]
          bA bB None Suc.prems(3,4)
        by simp
    qed
  qed
qed

text \<open>
  C10. They differ otherwise. With \<open>max_tries = 5\<close>, a first attempt that fails with
  \<^verbatim>\<open>22012\<close> and a second that would update 7 rows, \<^verbatim>\<open>src/pg_retry.c\<close> goes on to attempt 2
  and returns 7, the error of attempt 1 lost; \<^verbatim>\<open>src/src/pg_retry.c\<close> rethrows that error
  after attempt 1.
\<close>

theorem variants_differ:
  "pg_retry_retry_A (quiet_host (fails_once ERRCODE_DIVISION_BY_ZERO)) shipped (call 5)
     = (PG_RETURN_INT32 7, [SubXact 1, SubXact 2])
   \<and> pg_retry_retry_B (quiet_host (fails_once ERRCODE_DIVISION_BY_ZERO)) shipped (call 5)
     = (ReThrowError \<lparr>sqlerrcode = ERRCODE_DIVISION_BY_ZERO, message = Some ''failure 1''\<rparr>,
        [SubXact 1])"
  by code_simp

end
